theory Spec2Isabelle
  imports Complex_Main "HOL-Library.AList"
begin

section \<open>Values of the parsed payload and the Python operations applied to them\<close>

text \<open>
  \<^verbatim>\<open>resp.json()\<close> yields an arbitrary JSON value. An object is kept as the list of its
  items in insertion order (a Python \<^verbatim>\<open>dict\<close>, so the keys are distinct); numbers are the
  integers the API reports (watt-seconds). A JSON number with a fraction or an exponent
  (a Python \<^verbatim>\<open>float\<close>) is not represented here.
\<close>

datatype json =
    JNull
  | JBool bool
  | JInt int
  | JStr string
  | JArr "json list"
  | JObj "(string \<times> json) list"

text \<open>Exceptions, as values. The payload of the first two is whatever the library raised.\<close>

datatype exn =
    RequestError string
  | DecodeError string
  | TypeError
  | KeyError
  | OverflowError

text \<open>\<^verbatim>\<open>needle in haystack\<close> for two strings: is \<open>needle\<close> a contiguous part of it.\<close>

fun starts_with :: "string \<Rightarrow> string \<Rightarrow> bool" where
  "starts_with [] s = True"
| "starts_with (c # cs) [] = False"
| "starts_with (c # cs) (d # ds) = (c = d \<and> starts_with cs ds)"

fun substring :: "string \<Rightarrow> string \<Rightarrow> bool" where
  "substring n [] = (n = [])"
| "substring n (c # cs) = (starts_with n (c # cs) \<or> substring n cs)"

text \<open>
  \<^verbatim>\<open>k in v\<close> with a string \<open>k\<close>: key membership for a dict, element equality for a list,
  substring for a string, \<^verbatim>\<open>TypeError\<close> for a number, a boolean or \<^verbatim>\<open>None\<close>.
\<close>

fun py_contains :: "string \<Rightarrow> json \<Rightarrow> exn + bool" where
  "py_contains k (JObj kvs) = Inr (k \<in> set (map fst kvs))"
| "py_contains k (JArr xs) = Inr (JStr k \<in> set xs)"
| "py_contains k (JStr s) = Inr (substring k s)"
| "py_contains k (JInt n) = Inl TypeError"
| "py_contains k (JBool b) = Inl TypeError"
| "py_contains k JNull = Inl TypeError"

text \<open>\<^verbatim>\<open>v[k]\<close> with a string \<open>k\<close>: only a dict can be indexed by a string.\<close>

fun py_getitem :: "json \<Rightarrow> string \<Rightarrow> exn + json" where
  "py_getitem (JObj kvs) k = (case map_of kvs k of None \<Rightarrow> Inl KeyError | Some v \<Rightarrow> Inr v)"
| "py_getitem (JArr xs) k = Inl TypeError"
| "py_getitem (JStr s) k = Inl TypeError"
| "py_getitem (JInt n) k = Inl TypeError"
| "py_getitem (JBool b) k = Inl TypeError"
| "py_getitem JNull k = Inl TypeError"

text \<open>
  \<^verbatim>\<open>for reading in v\<close>: the elements of a list, the keys of a dict, the characters of a
  string; anything else is not iterable.
\<close>

fun py_iter :: "json \<Rightarrow> exn + json list" where
  "py_iter (JArr xs) = Inr xs"
| "py_iter (JObj kvs) = Inr (map (\<lambda>kv. JStr (fst kv)) kvs)"
| "py_iter (JStr s) = Inr (map (\<lambda>c. JStr [c]) s)"
| "py_iter (JInt n) = Inl TypeError"
| "py_iter (JBool b) = Inl TypeError"
| "py_iter JNull = Inl TypeError"

text \<open>\<^verbatim>\<open>total + v\<close> for an integer total: \<^verbatim>\<open>True\<close> and \<^verbatim>\<open>False\<close> are the integers 1 and 0.\<close>

fun py_add :: "int \<Rightarrow> json \<Rightarrow> exn + int" where
  "py_add a (JInt n) = Inr (a + n)"
| "py_add a (JBool b) = Inr (a + (if b then 1 else 0))"
| "py_add a (JStr s) = Inl TypeError"
| "py_add a (JArr xs) = Inl TypeError"
| "py_add a (JObj kvs) = Inl TypeError"
| "py_add a JNull = Inl TypeError"

section \<open>The accumulator\<close>

text \<open>
  \<^verbatim>\<open>totals = {"imp": 0, "exp": 0, "gep": 0, "gen": 0, "h1d": 0, "h1b": 0}\<close>: a dict, kept
  with its insertion order because \<^verbatim>\<open>for field in totals\<close> walks it in that order.
\<close>

type_synonym totals = "(string \<times> int) list"

definition totals_init :: totals where
  "totals_init =
     [(''imp'', 0), (''exp'', 0), (''gep'', 0), (''gen'', 0), (''h1d'', 0), (''h1b'', 0)]"

text \<open>
  The body of the inner loop, for one field of one reading:
  \<^verbatim>\<open>if field in reading: totals[field] += reading[field]\<close>.
  An exception leaves the accumulator as it is at that moment.
\<close>

definition add_field :: "string \<Rightarrow> json \<Rightarrow> totals \<Rightarrow> exn option \<times> totals" where
  "add_field field reading t =
     (case py_contains field reading of
        Inl e \<Rightarrow> (Some e, t)
      | Inr False \<Rightarrow> (None, t)
      | Inr True \<Rightarrow>
          (case map_of t field of
             None \<Rightarrow> (Some KeyError, t)
           | Some cur \<Rightarrow>
               (case py_getitem reading field of
                  Inl e \<Rightarrow> (Some e, t)
                | Inr v \<Rightarrow>
                    (case py_add cur v of
                       Inl e \<Rightarrow> (Some e, t)
                     | Inr s \<Rightarrow> (None, AList.update field s t)))))"

text \<open>\<^verbatim>\<open>for field in totals: ...\<close> over the fields still to visit.\<close>

fun add_reading :: "string list \<Rightarrow> json \<Rightarrow> totals \<Rightarrow> exn option \<times> totals" where
  "add_reading [] reading t = (None, t)"
| "add_reading (field # rest) reading t =
     (case add_field field reading t of
        (Some e, t') \<Rightarrow> (Some e, t')
      | (None, t') \<Rightarrow> add_reading rest reading t')"

text \<open>\<^verbatim>\<open>for reading in data[key]: ...\<close> over the readings still to visit.\<close>

fun add_readings :: "json list \<Rightarrow> totals \<Rightarrow> exn option \<times> totals" where
  "add_readings [] t = (None, t)"
| "add_readings (reading # rest) t =
     (case add_reading (map fst t) reading t of
        (Some e, t') \<Rightarrow> (Some e, t')
      | (None, t') \<Rightarrow> add_readings rest t')"

section \<open>Calendar dates\<close>

text \<open>
  A \<^verbatim>\<open>datetime.date\<close> is represented by its proleptic Gregorian ordinal
  (\<^verbatim>\<open>date.toordinal()\<close>, day 1 is 0001-01-01), so \<^verbatim>\<open>current <= end\<close> is \<open>\<le>\<close> and
  \<^verbatim>\<open>current += timedelta(days=1)\<close> adds one, raising \<^verbatim>\<open>OverflowError\<close> past
  \<^verbatim>\<open>date.max\<close> (9999-12-31). The calendar fields are computed from the ordinal the way
  the standard library does.
\<close>

type_synonym date = nat

definition date_max :: date where
  "date_max = 3652059"

definition is_leap :: "nat \<Rightarrow> bool" where
  "is_leap y = (y mod 4 = 0 \<and> (y mod 100 \<noteq> 0 \<or> y mod 400 = 0))"

definition days_before_year :: "nat \<Rightarrow> nat" where
  "days_before_year y = (y - 1) * 365 + (y - 1) div 4 - (y - 1) div 100 + (y - 1) div 400"

definition days_before_month :: "nat \<Rightarrow> nat \<Rightarrow> nat" where
  "days_before_month y m =
     [0, 0, 31, 59, 90, 120, 151, 181, 212, 243, 273, 304, 334] ! m
       + (if 2 < m \<and> is_leap y then 1 else 0)"

text \<open>\<^verbatim>\<open>date(y, m, d)\<close> for a valid year, month and day.\<close>

definition date_of :: "nat \<Rightarrow> nat \<Rightarrow> nat \<Rightarrow> date" where
  "date_of y m d = days_before_year y + days_before_month y m + d"

text \<open>The (year, month, day) of an ordinal: 400-, 100-, 4- and 1-year cycles, then the month.\<close>

definition ymd :: "date \<Rightarrow> nat \<times> nat \<times> nat" where
  "ymd ordinal =
     (let n = ordinal - 1;
          n400 = n div 146097; n = n mod 146097;
          n100 = n div 36524; n = n mod 36524;
          n4 = n div 1461; n = n mod 1461;
          n1 = n div 365; n = n mod 365;
          y = n400 * 400 + 1 + n100 * 100 + n4 * 4 + n1
      in if n1 = 4 \<or> n100 = 4 then (y - 1, 12, 31)
         else
           (let leapyear = (n1 = 3 \<and> (n4 \<noteq> 24 \<or> n100 = 3));
                m = (n + 50) div 32;
                preceding =
                  [0, 0, 31, 59, 90, 120, 151, 181, 212, 243, 273, 304, 334] ! m
                    + (if 2 < m \<and> leapyear then 1 else 0)
            in if n < preceding
               then
                 (let m' = m - 1;
                      preceding' =
                        preceding
                          - ([0, 31, 28, 31, 30, 31, 30, 31, 31, 30, 31, 30, 31] ! m'
                              + (if m' = 2 \<and> leapyear then 1 else 0))
                  in (y, m', n - preceding' + 1))
               else (y, m, n - preceding + 1)))"

definition year :: "date \<Rightarrow> nat" where
  "year d = fst (ymd d)"

definition month :: "date \<Rightarrow> nat" where
  "month d = fst (snd (ymd d))"

definition day :: "date \<Rightarrow> nat" where
  "day d = snd (snd (ymd d))"

subsection \<open>Formatting\<close>

text \<open>\<^verbatim>\<open>str(n)\<close> for a natural number: its decimal digits.\<close>

fun show_nat :: "nat \<Rightarrow> string" where
  "show_nat n =
     (if n < 10 then [''0123456789'' ! n]
      else show_nat (n div 10) @ [''0123456789'' ! (n mod 10)])"

declare show_nat.simps [simp del]

definition zero_pad :: "nat \<Rightarrow> string \<Rightarrow> string" where
  "zero_pad w s = replicate (w - length s) (CHR ''0'') @ s"

definition month_name :: "nat \<Rightarrow> string" where
  "month_name m =
     [[], ''January'', ''February'', ''March'', ''April'', ''May'', ''June'', ''July'',
      ''August'', ''September'', ''October'', ''November'', ''December''] ! m"

text \<open>
  \<^verbatim>\<open>current.strftime("%Y-%m-%d")\<close> and \<^verbatim>\<open>current.strftime("%B %Y")\<close>, with the year as the
  four-digit decimal number of the library's documentation and the month names of the
  default locale.
\<close>

definition date_str :: "date \<Rightarrow> string" where
  "date_str d =
     zero_pad 4 (show_nat (year d)) @ ''-'' @ zero_pad 2 (show_nat (month d)) @ ''-''
       @ zero_pad 2 (show_nat (day d))"

definition month_year_str :: "date \<Rightarrow> string" where
  "month_year_str d = month_name (month d) @ '' '' @ zero_pad 4 (show_nat (year d))"

section \<open>The transport\<close>

text \<open>
  What the script reads of a \<^verbatim>\<open>requests.Response\<close>: \<^verbatim>\<open>ok\<close>, \<^verbatim>\<open>text\<close>, the headers (keyed
  by the lower-cased header name, as the library's case-insensitive dictionary stores
  them) and the outcome of \<^verbatim>\<open>json()\<close>, which parses the body or raises.
\<close>

record response =
  resp_ok :: bool
  resp_text :: string
  resp_headers :: "string \<rightharpoonup> string"
  resp_json :: "exn + json"

text \<open>\<^verbatim>\<open>session.get(url, timeout=...)\<close> returns a response or raises.\<close>

datatype fetch = Raised exn | Returned response

text \<open>
  The network is a parameter: the outcome of the request, given which request of the run
  it is (for the aggregator, the date of the iteration) and the URL requested.
\<close>

type_synonym transport = "nat \<Rightarrow> string \<Rightarrow> fetch"

section \<open>The yearly aggregation (fetch\_2025.py)\<close>

definition ZAPPI :: string where
  "ZAPPI = ''21962448''"

definition SERVER :: string where
  "SERVER = ''s18.myenergi.net''"

text \<open>One call of \<^verbatim>\<open>print\<close>: a rendered string, the line of the exception handler
  (\<^verbatim>\<open>f"Error {date_str}: {e}"\<close>, kept as the date string and the exception), or a parsed
  value printed as it is.\<close>

datatype printed = Text string | ErrorText string exn | Value json

record state =
  totals :: totals
  days_processed :: nat
  out :: "printed list"

text \<open>\<^verbatim>\<open>key = f"U{ZAPPI}"\<close>\<close>

definition key :: string where
  "key = ''U'' @ ZAPPI"

definition url :: "string \<Rightarrow> string" where
  "url ds = ''https://'' @ SERVER @ ''/cgi-jday-Z'' @ ZAPPI @ ''-'' @ ds"

text \<open>\<^verbatim>\<open>if key in data: for reading in data[key]: ...\<close>\<close>

definition add_day :: "string \<Rightarrow> json \<Rightarrow> totals \<Rightarrow> exn option \<times> totals" where
  "add_day k data t =
     (case py_contains k data of
        Inl e \<Rightarrow> (Some e, t)
      | Inr False \<Rightarrow> (None, t)
      | Inr True \<Rightarrow>
          (case py_getitem data k of
             Inl e \<Rightarrow> (Some e, t)
           | Inr v \<Rightarrow>
               (case py_iter v of
                  Inl e \<Rightarrow> (Some e, t)
                | Inr readings \<Rightarrow> add_readings readings t)))"

text \<open>
  The body of the \<^verbatim>\<open>try\<close>, given the outcome of \<^verbatim>\<open>session.get\<close>. The counter is
  incremented after the \<^verbatim>\<open>if key in data\<close> statement, inside \<^verbatim>\<open>if resp.ok and resp.text\<close>.
\<close>

definition try_body :: "fetch \<Rightarrow> state \<Rightarrow> exn option \<times> state" where
  "try_body f st =
     (case f of
        Raised e \<Rightarrow> (Some e, st)
      | Returned resp \<Rightarrow>
          if resp_ok resp \<and> resp_text resp \<noteq> [] then
            (case resp_json resp of
               Inl e \<Rightarrow> (Some e, st)
             | Inr data \<Rightarrow>
                 (case add_day key data (totals st) of
                    (Some e, t') \<Rightarrow> (Some e, st\<lparr>totals := t'\<rparr>)
                  | (None, t') \<Rightarrow>
                      (None, st\<lparr>totals := t', days_processed := days_processed st + 1\<rparr>)))
          else (None, st))"

definition progress_text :: "date \<Rightarrow> nat \<Rightarrow> string" where
  "progress_text d n = month_year_str d @ ''... ('' @ show_nat n @ '' days)''"

text \<open>One iteration of the \<^verbatim>\<open>while\<close> loop, up to the progress line.\<close>

definition iteration :: "transport \<Rightarrow> date \<Rightarrow> state \<Rightarrow> state" where
  "iteration get current st =
     (let ds = date_str current;
          resp = get current (url ds);
          st1 = (case try_body resp st of
                   (Some e, s) \<Rightarrow> s\<lparr>out := out s @ [ErrorText ds e]\<rparr>
                 | (None, s) \<Rightarrow> s)
      in if day current = 1
         then st1\<lparr>out := out st1 @ [Text (progress_text current (days_processed st1))]\<rparr>
         else st1)"

text \<open>
  \<^verbatim>\<open>while current <= end: ...; current += timedelta(days=1); time.sleep(0.1)\<close>.
  Adding a day to \<^verbatim>\<open>date.max\<close> raises outside the \<^verbatim>\<open>try\<close> and ends the script.
\<close>

function run_loop :: "transport \<Rightarrow> date \<Rightarrow> date \<Rightarrow> state \<Rightarrow> exn option \<times> state" where
  "run_loop get current end_date st =
     (if current \<le> end_date then
        (let st' = iteration get current st
         in if date_max \<le> current then (Some OverflowError, st')
            else run_loop get (current + 1) end_date st')
      else (None, st))"
  by pat_completeness auto

termination
  by (relation "measure (\<lambda>(get, current, end_date, st). Suc end_date - current)") auto

declare run_loop.simps [simp del]

definition state_init :: state where
  "state_init = \<lparr>totals = totals_init, days_processed = 0, out = []\<rparr>"

definition start_date :: date where
  "start_date = date_of 2025 1 1"

definition end_date_2025 :: date where
  "end_date_2025 = date_of 2025 12 31"

subsection \<open>The report\<close>

text \<open>The integer nearest to \<open>a / b\<close> for \<open>b > 0\<close>, a tie going to the even one.\<close>

definition round_half_even :: "int \<Rightarrow> int \<Rightarrow> int" where
  "round_half_even a b =
     (let q = a div b; r = a mod b
      in if 2 * r < b then q
         else if b < 2 * r then q + 1
         else if even q then q else q + 1)"

text \<open>\<^verbatim>\<open>int.bit_length()\<close> of a natural number.\<close>

fun bit_length :: "nat \<Rightarrow> nat" where
  "bit_length n = (if n = 0 then 0 else Suc (bit_length (n div 2)))"

declare bit_length.simps [simp del]

text \<open>
  A finite Python \<^verbatim>\<open>float\<close> (IEEE binary64): \<open>Double neg m e\<close> is \<open>m * 2 ^ e\<close>, negated if
  \<open>neg\<close>, with \<open>0 \<le> m \<le> 2 ^ 53\<close>.
\<close>

datatype double = Double bool int int

text \<open>\<open>2 ^ k \<le> a / b\<close> for an integer \<open>k\<close> of either sign, in integers.\<close>

definition ge_pow2 :: "int \<Rightarrow> int \<Rightarrow> int \<Rightarrow> bool" where
  "ge_pow2 a b k = (if 0 \<le> k then b * 2 ^ nat k \<le> a else b \<le> a * 2 ^ nat (- k))"

text \<open>
  \<^verbatim>\<open>a / b\<close> for two integers with \<open>b > 0\<close>: the binary64 number nearest to the quotient
  (53 significant bits, a tie going to the even mantissa, exponent not below that of the
  subnormal numbers), or \<^verbatim>\<open>OverflowError\<close> when that is \<open>2 ^ 1024\<close> or more.
\<close>

definition true_div :: "int \<Rightarrow> int \<Rightarrow> exn + double" where
  "true_div a b =
     (if a = 0 then Inr (Double False 0 0)
      else
        (let n = \<bar>a\<bar>;
             d = int (bit_length (nat n)) - int (bit_length (nat b));
             fl = (if ge_pow2 n b d then d else d - 1);
             e = max (fl - 52) (- 1074);
             m = (if 0 \<le> e then round_half_even n (b * 2 ^ nat e)
                  else round_half_even (n * 2 ^ nat (- e)) b)
         in if 0 \<le> e \<and> 2 ^ 1024 \<le> m * 2 ^ nat e then Inl OverflowError
            else Inr (Double (a < 0) m e)))"

text \<open>
  \<^verbatim>\<open>f"{x:.1f}"\<close>: the number of tenths nearest to the exact value of the float (a tie going
  to the even one), written with one digit after the point.
\<close>

definition tenths :: "double \<Rightarrow> int" where
  "tenths x =
     (case x of Double neg m e \<Rightarrow>
        if 0 \<le> e then 10 * m * 2 ^ nat e else round_half_even (10 * m) (2 ^ nat (- e)))"

definition render_tenths :: "bool \<Rightarrow> int \<Rightarrow> string" where
  "render_tenths neg t =
     (if neg then ''-'' else []) @ show_nat (nat (t div 10)) @ ''.'' @ show_nat (nat (t mod 10))"

definition format_1f :: "double \<Rightarrow> string" where
  "format_1f x = (case x of Double neg m e \<Rightarrow> render_tenths neg (tenths x))"

text \<open>\<^verbatim>\<open>f"{n / 3600000:.1f}"\<close>\<close>

definition kwh_text :: "int \<Rightarrow> exn + string" where
  "kwh_text n = (case true_div n 3600000 of Inl e \<Rightarrow> Inl e | Inr x \<Rightarrow> Inr (format_1f x))"

text \<open>\<^verbatim>\<open>totals[k]\<close>\<close>

definition lookup_total :: "totals \<Rightarrow> string \<Rightarrow> exn + int" where
  "lookup_total t k = (case map_of t k of None \<Rightarrow> Inl KeyError | Some v \<Rightarrow> Inr v)"

text \<open>\<^verbatim>\<open>print(f"<label>{n / 3600000:.1f} kWh")\<close>\<close>

definition print_kwh :: "string \<Rightarrow> int \<Rightarrow> state \<Rightarrow> exn option \<times> state" where
  "print_kwh label n st =
     (case kwh_text n of
        Inl e \<Rightarrow> (Some e, st)
      | Inr s \<Rightarrow> (None, st\<lparr>out := out st @ [Text (label @ s @ '' kWh'')]\<rparr>))"

definition header_text :: "nat \<Rightarrow> string" where
  "header_text n = CHR 0x0A # ''=== 2025 Totals ('' @ show_nat n @ '' days) ===''"

text \<open>The five \<^verbatim>\<open>print\<close> statements after the loop; an exception ends the script.\<close>

definition report :: "state \<Rightarrow> exn option \<times> state" where
  "report st0 =
     (let st = st0\<lparr>out := out st0 @ [Text (header_text (days_processed st0))]\<rparr>
      in case lookup_total (totals st) ''imp'' of
           Inl e \<Rightarrow> (Some e, st)
         | Inr imp \<Rightarrow>
      (case print_kwh ''Import (from grid): '' imp st of
           (Some e, st) \<Rightarrow> (Some e, st)
         | (None, st) \<Rightarrow>
      (case lookup_total (totals st) ''exp'' of
           Inl e \<Rightarrow> (Some e, st)
         | Inr ex \<Rightarrow>
      (case print_kwh ''Export (to grid):   '' ex st of
           (Some e, st) \<Rightarrow> (Some e, st)
         | (None, st) \<Rightarrow>
      (case lookup_total (totals st) ''gep'' of
           Inl e \<Rightarrow> (Some e, st)
         | Inr gep \<Rightarrow>
      (case print_kwh ''Generation (solar): '' gep st of
           (Some e, st) \<Rightarrow> (Some e, st)
         | (None, st) \<Rightarrow>
      (case lookup_total (totals st) ''imp'' of
           Inl e \<Rightarrow> (Some e, st)
         | Inr imp \<Rightarrow>
      (case lookup_total (totals st) ''gep'' of
           Inl e \<Rightarrow> (Some e, st)
         | Inr gep \<Rightarrow>
      (case lookup_total (totals st) ''exp'' of
           Inl e \<Rightarrow> (Some e, st)
         | Inr ex \<Rightarrow>
             print_kwh ''Consumption (est.): '' (imp + gep - ex) st)))))))))"

text \<open>The script: the loop over the range, then the report.\<close>

definition run :: "transport \<Rightarrow> date \<Rightarrow> date \<Rightarrow> exn option \<times> state" where
  "run get start end_date =
     (case run_loop get start end_date state_init of
        (Some e, st) \<Rightarrow> (Some e, st)
      | (None, st) \<Rightarrow> report st)"

definition main :: "transport \<Rightarrow> exn option \<times> state" where
  "main get = run get start_date end_date_2025"

section \<open>The credential probe (test\_myenergi.py)\<close>

text \<open>
  How the script ends: it runs to its last statement (exit status 0), it calls
  \<^verbatim>\<open>exit(n)\<close>, or an exception nobody catches ends it.
\<close>

datatype ending = Completed | Exit nat | Uncaught exn

text \<open>What the probe did: the URLs it requested, in order, what it printed, how it ended.\<close>

record probe_run =
  requested :: "string list"
  shown :: "printed list"
  ended :: ending

text \<open>
  \<^verbatim>\<open>not X\<close> for the result of \<^verbatim>\<open>os.environ.get(...)\<close>: true for \<^verbatim>\<open>None\<close> (the variable
  is not set) and for the empty string.
\<close>

definition py_not :: "string option \<Rightarrow> bool" where
  "py_not v = (case v of None \<Rightarrow> True | Some s \<Rightarrow> s = [])"

definition director_url :: string where
  "director_url = ''https://director.myenergi.net/cgi-jstatus-*''"

definition status_url :: "string \<Rightarrow> string" where
  "status_url server = ''https://'' @ server @ ''/cgi-jstatus-*''"

definition instruction :: string where
  "instruction = ''Set MYENERGI_SERIAL and MYENERGI_API_KEY environment variables''"

text \<open>\<^verbatim>\<open>print(resp.json())\<close>, the last statement, after the given requests.\<close>

definition print_json :: "string list \<Rightarrow> response \<Rightarrow> probe_run" where
  "print_json urls resp =
     (case resp_json resp of
        Inl e \<Rightarrow> \<lparr>requested = urls, shown = [], ended = Uncaught e\<rparr>
      | Inr v \<Rightarrow> \<lparr>requested = urls, shown = [Value v], ended = Completed\<rparr>)"

text \<open>
  The script, given the two environment variables and the network (the first argument of
  the transport is the number of the request, from 0).
\<close>

definition probe :: "string option \<Rightarrow> string option \<Rightarrow> transport \<Rightarrow> probe_run" where
  "probe SERIAL API_KEY get =
     (if py_not SERIAL \<or> py_not API_KEY then
        \<lparr>requested = [], shown = [Text instruction], ended = Exit 1\<rparr>
      else
        (case get 0 director_url of
           Raised e \<Rightarrow> \<lparr>requested = [director_url], shown = [], ended = Uncaught e\<rparr>
         | Returned resp \<Rightarrow>
             (case resp_headers resp ''x_myenergi-asn'' of
                None \<Rightarrow> print_json [director_url] resp
              | Some server \<Rightarrow>
                  (case get 1 (status_url server) of
                     Raised e \<Rightarrow>
                       \<lparr>requested = [director_url, status_url server], shown = [],
                        ended = Uncaught e\<rparr>
                   | Returned resp' \<Rightarrow>
                       print_json [director_url, status_url server] resp'))))"

section \<open>The vocabulary of the claims\<close>

text \<open>The response the loop receives for a date.\<close>

definition fetched :: "transport \<Rightarrow> date \<Rightarrow> fetch" where
  "fetched get d = get d (url (date_str d))"

text \<open>The tracked fields, in the order of the accumulator.\<close>

definition tracked_fields :: "string list" where
  "tracked_fields = map fst totals_init"

text \<open>A value that can be added to an integer total, and what it adds.\<close>

fun is_number :: "json \<Rightarrow> bool" where
  "is_number (JInt n) = True"
| "is_number (JBool b) = True"
| "is_number v = False"

fun number_value :: "json \<Rightarrow> int" where
  "number_value (JInt n) = n"
| "number_value (JBool b) = (if b then 1 else 0)"
| "number_value v = 0"

text \<open>
  A field of a reading can be handled without an exception: it is missing, or it is
  present in a record (a dict) with a numeric value.
\<close>

fun field_ok :: "string \<Rightarrow> json \<Rightarrow> bool" where
  "field_ok f (JObj kvs) = (case map_of kvs f of None \<Rightarrow> True | Some v \<Rightarrow> is_number v)"
| "field_ok f (JArr xs) = (JStr f \<notin> set xs)"
| "field_ok f (JStr s) = (\<not> substring f s)"
| "field_ok f v = False"

text \<open>The field's value in a reading record; a missing field counts as zero.\<close>

fun field_value :: "string \<Rightarrow> json \<Rightarrow> int" where
  "field_value f (JObj kvs) = (case map_of kvs f of None \<Rightarrow> 0 | Some v \<Rightarrow> number_value v)"
| "field_value f v = 0"

definition reading_ok :: "json \<Rightarrow> bool" where
  "reading_ok r = list_all (\<lambda>g. field_ok g r) tracked_fields"

text \<open>
  What a reading adds to field \<open>f\<close>: its value, if the walk over the fields reaches \<open>f\<close>
  before a field that raises.
\<close>

definition reading_adds :: "string \<Rightarrow> json \<Rightarrow> int" where
  "reading_adds f r =
     (if f \<in> set (takeWhile (\<lambda>g. field_ok g r) tracked_fields) then field_value f r else 0)"

text \<open>What a list of readings adds to field \<open>f\<close>: the walk stops at the first reading
  that raises.\<close>

fun readings_add :: "string \<Rightarrow> json list \<Rightarrow> int" where
  "readings_add f [] = 0"
| "readings_add f (r # rs) =
     reading_adds f r + (if reading_ok r then readings_add f rs else 0)"

text \<open>
  The readings found under the per-device key of a parsed payload: none when the key is
  absent; \<open>None\<close> when the lookup or the iteration raises.
\<close>

fun day_readings :: "json \<Rightarrow> json list option" where
  "day_readings (JObj kvs) =
     (case map_of kvs key of
        None \<Rightarrow> Some []
      | Some v \<Rightarrow> (case py_iter v of Inl e \<Rightarrow> None | Inr rs \<Rightarrow> Some rs))"
| "day_readings (JArr xs) = (if JStr key \<in> set xs then None else Some [])"
| "day_readings (JStr s) = (if substring key s then None else Some [])"
| "day_readings v = None"

text \<open>The parsed payload of a response that is ok and not empty.\<close>

definition payload :: "fetch \<Rightarrow> json option" where
  "payload f =
     (case f of
        Raised e \<Rightarrow> None
      | Returned resp \<Rightarrow>
          if resp_ok resp \<and> resp_text resp \<noteq> [] then
            (case resp_json resp of Inl e \<Rightarrow> None | Inr data \<Rightarrow> Some data)
          else None)"

definition readings_of :: "fetch \<Rightarrow> json list option" where
  "readings_of f = (case payload f of None \<Rightarrow> None | Some data \<Rightarrow> day_readings data)"

text \<open>
  A day is processed without an exception: the response is ok, not empty and parsed, the
  key lookup does not raise, and no reading raises. The key itself may be absent.
\<close>

definition counted :: "fetch \<Rightarrow> bool" where
  "counted f = (case readings_of f of None \<Rightarrow> False | Some rs \<Rightarrow> list_all reading_ok rs)"

text \<open>The per-device key was found in an ok, non-empty, parsed response.\<close>

definition key_found :: "fetch \<Rightarrow> bool" where
  "key_found f =
     (case payload f of None \<Rightarrow> False | Some data \<Rightarrow> py_contains key data = Inr True)"

text \<open>What a day adds to field \<open>f\<close>.\<close>

definition day_adds :: "string \<Rightarrow> fetch \<Rightarrow> int" where
  "day_adds f x = (case readings_of x of None \<Rightarrow> 0 | Some rs \<Rightarrow> readings_add f rs)"

text \<open>The response is not ok, or its body is empty: the day is passed over silently.\<close>

definition skipped :: "fetch \<Rightarrow> bool" where
  "skipped x =
     (case x of Raised e \<Rightarrow> False
      | Returned resp \<Rightarrow> \<not> (resp_ok resp \<and> resp_text resp \<noteq> []))"

text \<open>
  The sum, over all reading records of a parsed day, of the value of field \<open>f\<close> in the
  record (zero where the field is missing).
\<close>

definition day_sum :: "string \<Rightarrow> fetch \<Rightarrow> int" where
  "day_sum f x = (case readings_of x of None \<Rightarrow> 0 | Some rs \<Rightarrow> (\<Sum>r\<leftarrow>rs. field_value f r))"

text \<open>The readings were reached, and one of them raises.\<close>

definition fails_partway :: "fetch \<Rightarrow> bool" where
  "fails_partway x =
     (case readings_of x of None \<Rightarrow> False | Some rs \<Rightarrow> \<not> list_all reading_ok rs)"

text \<open>The rendered lines among what was printed: in the loop, the progress lines.\<close>

fun texts :: "printed list \<Rightarrow> string list" where
  "texts [] = []"
| "texts (Text s # ps) = s # texts ps"
| "texts (ErrorText ds e # ps) = texts ps"
| "texts (Value v # ps) = texts ps"

text \<open>
  \<open>t\<close> tenths of a kilowatt-hour is \<open>n\<close> watt-seconds divided by 3,600,000 to one decimal
  place: within half a tenth of the quotient, up to the rounding of the floating-point
  division (a relative error of at most one part in \<open>2 ^ 53\<close>).
\<close>

definition near_kwh :: "int \<Rightarrow> int \<Rightarrow> bool" where
  "near_kwh n t =
     (0 \<le> t
      \<and> \<bar>real_of_int t / 10 - \<bar>real_of_int n\<bar> / 3600000\<bar>
          \<le> 1 / 20 + \<bar>real_of_int n\<bar> / 3600000 / 2 ^ 53)"

text \<open>\<open>s\<close> is the figure of \<open>n\<close> watt-seconds in kilowatt-hours with one decimal place.\<close>

definition one_decimal :: "int \<Rightarrow> string \<Rightarrow> bool" where
  "one_decimal n s = (\<exists>t. near_kwh n t \<and> s = render_tenths (n < 0) t)"

section \<open>Concrete responses\<close>

text \<open>A response that is ok, has a body, and parses to the given value.\<close>

definition ok_response :: "json \<Rightarrow> fetch" where
  "ok_response data =
     Returned \<lparr>resp_ok = True, resp_text = ''{...}'', resp_headers = Map.empty,
               resp_json = Inr data\<rparr>"

text \<open>Every day answers with an object that lacks the per-device key.\<close>

definition day_without_key :: transport where
  "day_without_key d u = ok_response (JObj [])"

text \<open>Every day answers with the single reading
  \<^verbatim>\<open>{"imp": 3600000, "exp": 0, "gep": 0}\<close> under the per-device key.\<close>

definition single_reading :: transport where
  "single_reading d u =
     ok_response
       (JObj [(key, JArr [JObj [(''imp'', JInt 3600000), (''exp'', JInt 0), (''gep'', JInt 0)]])])"

text \<open>Every day answers with two readings, the first of which has a non-numeric
  \<^verbatim>\<open>"exp"\<close>: \<^verbatim>\<open>[{"imp": 5, "exp": "x"}, {"imp": 7}]\<close>.\<close>

definition partway_day :: transport where
  "partway_day d u =
     ok_response
       (JObj [(key, JArr [JObj [(''imp'', JInt 5), (''exp'', JStr ''x'')],
                          JObj [(''imp'', JInt 7)]])])"

text \<open>Every day answers with \<^verbatim>\<open>[{"imp": 5}, {"imp": 7, "exp": "x"}, {"imp": 9}]\<close>.\<close>

definition late_failure :: transport where
  "late_failure d u =
     ok_response
       (JObj [(key, JArr [JObj [(''imp'', JInt 5)],
                          JObj [(''imp'', JInt 7), (''exp'', JStr ''x'')],
                          JObj [(''imp'', JInt 9)]])])"

text \<open>The request of 2025-01-01 times out; every other day answers as \<open>single_reading\<close>.\<close>

definition timeout_then_data :: transport where
  "timeout_then_data d u =
     (if d = 739252 then Raised (RequestError ''timed out'') else single_reading d u)"

text \<open>The state after the single day 2024-12-31 answered as \<open>single_reading\<close>.\<close>

definition after_one_day :: state where
  "after_one_day = iteration single_reading 739251 state_init"

text \<open>The director names the server \<^verbatim>\<open>s18.myenergi.net\<close>; each host answers with its own
  name.\<close>

definition director_reply :: response where
  "director_reply =
     \<lparr>resp_ok = True, resp_text = ''...'',
      resp_headers = [''x_myenergi-asn'' \<mapsto> ''s18.myenergi.net''],
      resp_json = Inr (JStr ''director'')\<rparr>"

definition server_reply :: response where
  "server_reply =
     \<lparr>resp_ok = True, resp_text = ''...'', resp_headers = Map.empty,
      resp_json = Inr (JStr ''s18'')\<rparr>"

definition two_hosts :: transport where
  "two_hosts k u = (if u = director_url then Returned director_reply else Returned server_reply)"

section \<open>The accumulation loops, characterised\<close>

lemma map_of_keyD: "map_of kvs f = Some v \<Longrightarrow> f \<in> fst ` set kvs"
  by (metis map_of_eq_None_iff option.distinct(1))

lemma add_field_ok:
  assumes "map_of t g = Some c" "field_ok g r"
  shows "\<exists>t'. add_field g r t = (None, t') \<and> map fst t' = map fst t
           \<and> map_of t' = (map_of t)(g \<mapsto> c + field_value g r)"
proof (cases r)
  case (JObj kvs)
  show ?thesis
  proof (cases "map_of kvs g")
    case None
    then have "g \<notin> fst ` set kvs" by (simp add: map_of_eq_None_iff)
    with None JObj assms show ?thesis
      by (auto simp: add_field_def fun_eq_iff)
  next
    case (Some v)
    then have in_keys: "g \<in> fst ` set kvs" by (rule map_of_keyD)
    from assms(1) have gt: "g \<in> fst ` set t" by (rule map_of_keyD)
    from Some JObj assms(2) have "is_number v" by simp
    then obtain s where s: "py_add c v = Inr s" "s = c + number_value v"
      by (cases v) auto
    with Some JObj assms(1) in_keys gt show ?thesis
      by (auto simp: add_field_def AList.update_keys AList.update_conv')
  qed
next
  case (JArr xs)
  with assms show ?thesis by (auto simp: add_field_def fun_eq_iff)
next
  case (JStr s)
  with assms show ?thesis by (auto simp: add_field_def fun_eq_iff)
qed (use assms in auto)

lemma add_field_bad:
  assumes "map_of t g = Some c" "\<not> field_ok g r"
  shows "\<exists>e. add_field g r t = (Some e, t)"
proof (cases r)
  case (JObj kvs)
  with assms obtain v where v: "map_of kvs g = Some v" "\<not> is_number v"
    by (auto split: option.splits)
  then have in_keys: "g \<in> fst ` set kvs" by (auto dest: map_of_keyD)
  from v(2) have "py_add c v = Inl TypeError" by (cases v) auto
  with v JObj assms(1) in_keys show ?thesis
    by (auto simp: add_field_def)
qed (use assms in \<open>auto simp: add_field_def\<close>)

lemma add_reading_char:
  assumes "distinct fs" "set fs \<subseteq> fst ` set t"
  shows "\<exists>e t'. add_reading fs r t = (e, t')
           \<and> (e = None \<longleftrightarrow> list_all (\<lambda>g. field_ok g r) fs)
           \<and> map fst t' = map fst t
           \<and> (\<forall>f. map_of t' f =
                 (if f \<in> set (takeWhile (\<lambda>g. field_ok g r) fs)
                  then map_option (\<lambda>c. c + field_value f r) (map_of t f)
                  else map_of t f))"
  using assms
proof (induction fs arbitrary: t)
  case Nil
  then show ?case by simp
next
  case (Cons g fs)
  from Cons.prems obtain c where c: "map_of t g = Some c"
    by (metis list.set_intros(1) map_of_eq_None_iff not_Some_eq subsetD)
  show ?case
  proof (cases "field_ok g r")
    case False
    from add_field_bad[OF c False] obtain e where "add_field g r t = (Some e, t)" ..
    with False show ?thesis by simp
  next
    case True
    from add_field_ok[OF c True] obtain t1 where t1:
      "add_field g r t = (None, t1)" "map fst t1 = map fst t"
      "map_of t1 = (map_of t)(g \<mapsto> c + field_value g r)" by blast
    from Cons.prems t1(2) have p: "distinct fs" "set fs \<subseteq> fst ` set t1"
      by (auto simp flip: set_map)
    from Cons.IH[OF p] obtain e t' where IH:
      "add_reading fs r t1 = (e, t')" "e = None \<longleftrightarrow> list_all (\<lambda>g. field_ok g r) fs"
      "map fst t' = map fst t1"
      "\<forall>f. map_of t' f =
                 (if f \<in> set (takeWhile (\<lambda>g. field_ok g r) fs)
                  then map_option (\<lambda>c. c + field_value f r) (map_of t1 f)
                  else map_of t1 f)" by blast
    have g_notin: "g \<notin> set (takeWhile (\<lambda>g. field_ok g r) fs)"
      using Cons.prems(1) by (auto dest: set_takeWhileD)
    show ?thesis
      using t1 IH True c g_notin by (auto simp: )
  qed
qed

lemma distinct_fields: "distinct tracked_fields"
  by (simp add: tracked_fields_def totals_init_def)

lemma add_readings_char:
  assumes "map fst t = tracked_fields"
  shows "\<exists>e t'. add_readings rs t = (e, t')
           \<and> (e = None \<longleftrightarrow> list_all reading_ok rs)
           \<and> map fst t' = tracked_fields
           \<and> (\<forall>f. map_of t' f = map_option (\<lambda>c. c + readings_add f rs) (map_of t f))"
  using assms
proof (induction rs arbitrary: t)
  case Nil
  then show ?case by (simp add: option.map_ident)
next
  case (Cons r rs)
  have "distinct (map fst t)"
    using Cons.prems distinct_fields by simp
  moreover have "set (map fst t) \<subseteq> fst ` set t"
    by simp
  ultimately have "distinct (map fst t)" "set (map fst t) \<subseteq> fst ` set t" .
  from add_reading_char[OF this, of r] obtain e1 t1 where t1:
    "add_reading (map fst t) r t = (e1, t1)"
    "e1 = None \<longleftrightarrow> reading_ok r" "map fst t1 = tracked_fields"
    "\<forall>f. map_of t1 f = map_option (\<lambda>c. c + reading_adds f r) (map_of t f)"
    unfolding reading_ok_def reading_adds_def Cons.prems
    by (auto simp: option.map_ident cong: if_cong)
  show ?case
  proof (cases e1)
    case (Some e)
    with t1 show ?thesis by auto
  next
    case None
    from Cons.IH[OF t1(3)] obtain e t' where IH: "add_readings rs t1 = (e, t')"
      "e = None \<longleftrightarrow> list_all reading_ok rs" "map fst t' = tracked_fields"
      "\<forall>f. map_of t' f = map_option (\<lambda>c. c + readings_add f rs) (map_of t1 f)" by blast
    with None t1 show ?thesis
      by (auto simp: option.map_comp comp_def add.assoc)
  qed
qed

lemma add_day_char:
  assumes "map fst t = tracked_fields"
  shows "\<exists>e t'. add_day key data t = (e, t')
           \<and> (e = None \<longleftrightarrow>
                (case day_readings data of None \<Rightarrow> False | Some rs \<Rightarrow> list_all reading_ok rs))
           \<and> map fst t' = tracked_fields
           \<and> (day_readings data = None \<longrightarrow> t' = t)
           \<and> (\<forall>f. map_of t' f =
                 map_option
                   (\<lambda>c. c + (case day_readings data of None \<Rightarrow> 0
                              | Some rs \<Rightarrow> readings_add f rs))
                   (map_of t f))"
proof (cases data)
  case (JObj kvs)
  show ?thesis
  proof (cases "map_of kvs key")
    case None
    then have "key \<notin> fst ` set kvs" by (simp add: map_of_eq_None_iff)
    with None JObj assms show ?thesis
      by (simp add: add_day_def option.map_ident)
  next
    case (Some v)
    then have in_keys: "key \<in> fst ` set kvs" by (rule map_of_keyD)
    show ?thesis
    proof (cases "py_iter v")
      case (Inl e)
      with Some JObj in_keys assms show ?thesis
        by (simp add: add_day_def option.map_ident)
    next
      case (Inr rs)
      from add_readings_char[OF assms, of rs] Inr Some JObj in_keys show ?thesis
        by (simp add: add_day_def)
    qed
  qed
qed (use assms in \<open>auto simp: add_day_def option.map_ident\<close>)

lemma try_body_char:
  assumes "map fst (totals st) = tracked_fields"
  shows "\<exists>e st'. try_body x st = (e, st')
           \<and> out st' = out st
           \<and> days_processed st' = days_processed st + (if counted x then 1 else 0)
           \<and> map fst (totals st') = tracked_fields
           \<and> (e = None \<longleftrightarrow> counted x \<or> skipped x)
           \<and> (readings_of x = None \<longrightarrow> totals st' = totals st)
           \<and> (\<forall>f. map_of (totals st') f =
                 map_option (\<lambda>c. c + day_adds f x) (map_of (totals st) f))"
proof (cases x)
  case (Raised e)
  with assms show ?thesis
    by (simp add: try_body_def counted_def readings_of_def payload_def day_adds_def
        skipped_def option.map_ident)
next
  case (Returned resp)
  show ?thesis
  proof (cases "resp_ok resp \<and> resp_text resp \<noteq> []")
    case False
    with Returned assms show ?thesis
      by (auto simp: try_body_def counted_def readings_of_def payload_def day_adds_def
          skipped_def option.map_ident)
  next
    case True
    show ?thesis
    proof (cases "resp_json resp")
      case (Inl e)
      with True Returned assms show ?thesis
        by (auto simp: try_body_def counted_def readings_of_def payload_def day_adds_def
            skipped_def option.map_ident)
    next
      case (Inr data)
      from add_day_char[OF assms, of data] obtain e t' where d:
        "add_day key data (totals st) = (e, t')"
        "e = None \<longleftrightarrow>
           (case day_readings data of None \<Rightarrow> False | Some rs \<Rightarrow> list_all reading_ok rs)"
        "map fst t' = tracked_fields"
        "day_readings data = None \<longrightarrow> t' = totals st"
        "\<forall>f. map_of t' f =
                 map_option
                   (\<lambda>c. c + (case day_readings data of None \<Rightarrow> 0
                              | Some rs \<Rightarrow> readings_add f rs))
                   (map_of (totals st) f)" by (elim exE conjE) (rule that)
      have p: "payload x = Some data"
        using True Returned Inr by (simp add: payload_def)
      show ?thesis
      proof (cases e)
        case None
        with d p True Returned Inr show ?thesis
          by (auto simp: try_body_def counted_def readings_of_def day_adds_def skipped_def)
      next
        case (Some e')
        with d p True Returned Inr show ?thesis
          by (auto simp: try_body_def counted_def readings_of_def day_adds_def skipped_def)
      qed
    qed
  qed
qed

lemma iteration_char:
  assumes "map fst (totals st) = tracked_fields"
  shows "days_processed (iteration get d st) =
           days_processed st + (if counted (fetched get d) then 1 else 0)"
    and "map fst (totals (iteration get d st)) = tracked_fields"
    and "map_of (totals (iteration get d st)) f =
           map_option (\<lambda>c. c + day_adds f (fetched get d)) (map_of (totals st) f)"
    and "readings_of (fetched get d) = None \<Longrightarrow> totals (iteration get d st) = totals st"
    and "\<exists>e. (e = None \<longleftrightarrow> counted (fetched get d) \<or> skipped (fetched get d))
           \<and> out (iteration get d st) =
               out st @ (case e of None \<Rightarrow> [] | Some e' \<Rightarrow> [ErrorText (date_str d) e'])
                 @ (if day d = 1
                    then [Text (progress_text d (days_processed (iteration get d st)))]
                    else [])"
proof -
  from try_body_char[OF assms, of "fetched get d"] obtain e st' where t:
    "try_body (fetched get d) st = (e, st')" "out st' = out st"
    "days_processed st' = days_processed st + (if counted (fetched get d) then 1 else 0)"
    "map fst (totals st') = tracked_fields"
    "e = None \<longleftrightarrow> counted (fetched get d) \<or> skipped (fetched get d)"
    "readings_of (fetched get d) = None \<longrightarrow> totals st' = totals st"
    "\<forall>f. map_of (totals st') f =
          map_option (\<lambda>c. c + day_adds f (fetched get d)) (map_of (totals st) f)"
    by (elim exE conjE) (rule that)
  show "days_processed (iteration get d st) =
           days_processed st + (if counted (fetched get d) then 1 else 0)"
    using t by (cases e) (simp_all add: iteration_def Let_def fetched_def)
  show "map fst (totals (iteration get d st)) = tracked_fields"
    using t by (cases e) (simp_all add: iteration_def Let_def fetched_def)
  show "map_of (totals (iteration get d st)) f =
           map_option (\<lambda>c. c + day_adds f (fetched get d)) (map_of (totals st) f)"
    using t by (cases e) (simp_all add: iteration_def Let_def fetched_def)
  show "totals (iteration get d st) = totals st" if "readings_of (fetched get d) = None"
    using t that by (cases e) (simp_all add: iteration_def Let_def fetched_def)
  have "out (iteration get d st) =
               out st @ (case e of None \<Rightarrow> [] | Some e' \<Rightarrow> [ErrorText (date_str d) e'])
                 @ (if day d = 1
                    then [Text (progress_text d (days_processed (iteration get d st)))]
                    else [])"
    using t by (cases e) (simp_all add: iteration_def Let_def fetched_def)
  with t(5) show "\<exists>e. (e = None \<longleftrightarrow> counted (fetched get d) \<or> skipped (fetched get d))
           \<and> out (iteration get d st) =
               out st @ (case e of None \<Rightarrow> [] | Some e' \<Rightarrow> [ErrorText (date_str d) e'])
                 @ (if day d = 1
                    then [Text (progress_text d (days_processed (iteration get d st)))]
                    else [])"
    by blast
qed

lemma run_loop_foldl:
  assumes "end_date < date_max"
  shows "run_loop get current end_date st =
           (None, foldl (\<lambda>s d. iteration get d s) st [current..<Suc end_date])"
  using assms
proof (induction get current end_date st rule: run_loop.induct)
  case (1 get current end_date st)
  show ?case
  proof (cases "current \<le> end_date")
    case False
    then show ?thesis by (simp add: run_loop.simps)
  next
    case True
    with "1.prems" have nm: "\<not> date_max \<le> current" by simp
    from True have "[current..<Suc end_date] = current # [Suc current..<Suc end_date]"
      by (simp add: upt_conv_Cons)
    with "1.IH"[OF True refl nm "1.prems"] True nm show ?thesis
      by (subst run_loop.simps) (simp add: Let_def)
  qed
qed

lemma foldl_iteration_char:
  assumes "map fst (totals st) = tracked_fields"
  shows "map fst (totals (foldl (\<lambda>s d. iteration get d s) st ds)) = tracked_fields
       \<and> days_processed (foldl (\<lambda>s d. iteration get d s) st ds) =
           days_processed st + length (filter (\<lambda>d. counted (fetched get d)) ds)
       \<and> map_of (totals (foldl (\<lambda>s d. iteration get d s) st ds)) f =
           map_option (\<lambda>c. c + (\<Sum>d\<leftarrow>ds. day_adds f (fetched get d))) (map_of (totals st) f)"
  using assms
proof (induction ds arbitrary: st)
  case Nil
  then show ?case by (simp add: option.map_ident)
next
  case (Cons d ds)
  note it = iteration_char[OF Cons.prems, of get d]
  from Cons.IH[OF it(2)] it(1) it(3)[of f] show ?case
    by (simp add: option.map_comp comp_def add.assoc)
qed

lemma init_keys: "map fst (totals state_init) = tracked_fields"
  by (simp add: state_init_def tracked_fields_def)

lemma init_lookup:
  "f \<in> set tracked_fields \<Longrightarrow> map_of (totals state_init) f = Some 0"
  by (auto simp: state_init_def tracked_fields_def totals_init_def)

lemma reading_adds_ok:
  assumes "reading_ok r" "f \<in> set tracked_fields"
  shows "reading_adds f r = field_value f r"
proof -
  from assms(1) have tw: "takeWhile (\<lambda>g. field_ok g r) tracked_fields = tracked_fields"
    by (simp add: reading_ok_def list_all_iff)
  show ?thesis unfolding reading_adds_def tw using assms(2) by simp
qed

lemma readings_add_ok:
  assumes "list_all reading_ok rs" "f \<in> set tracked_fields"
  shows "readings_add f rs = (\<Sum>r\<leftarrow>rs. field_value f r)"
  using assms by (induction rs) (simp_all add: reading_adds_ok)

lemma day_adds_sum:
  assumes "\<not> fails_partway x" "f \<in> set tracked_fields"
  shows "day_adds f x = day_sum f x"
  using assms
  by (auto simp: day_adds_def day_sum_def fails_partway_def readings_add_ok
      split: option.splits)

lemma readings_add_split:
  assumes "list_all reading_ok good" "\<not> reading_ok bad" "f \<in> set tracked_fields"
  shows "readings_add f (good @ bad # rest) = (\<Sum>r\<leftarrow>good. field_value f r) + reading_adds f bad"
  using assms by (induction good) (simp_all add: reading_adds_ok)

lemma try_body_error:
  assumes "map fst (totals st) = tracked_fields" "fails_partway (fetched get d)"
  shows "\<exists>e. out (iteration get d st) =
               out st @ ErrorText (date_str d) e
                 # (if day d = 1
                    then [Text (progress_text d (days_processed st))]
                    else [])"
proof -
  from assms(2) have nc: "\<not> counted (fetched get d)" "\<not> skipped (fetched get d)"
    by (auto simp: fails_partway_def counted_def skipped_def readings_of_def payload_def
        split: option.splits fetch.splits if_splits)
  from iteration_char(5)[OF assms(1), of get d] obtain e where e:
    "e = None \<longleftrightarrow> counted (fetched get d) \<or> skipped (fetched get d)"
    "out (iteration get d st) =
               out st @ (case e of None \<Rightarrow> [] | Some e' \<Rightarrow> [ErrorText (date_str d) e'])
                 @ (if day d = 1
                    then [Text (progress_text d (days_processed (iteration get d st)))]
                    else [])" by blast
  with nc obtain e' where "e = Some e'" by auto
  with e(2) iteration_char(1)[OF assms(1), of get d] nc show ?thesis
    by auto
qed

lemma texts_append: "texts (xs @ ys) = texts xs @ texts ys"
  by (induction xs rule: texts.induct) simp_all

lemma texts_error: "texts (case e of None \<Rightarrow> [] | Some e' \<Rightarrow> [ErrorText ds e']) = []"
  by (cases e) simp_all

lemma foldl_progress:
  assumes "map fst (totals st) = tracked_fields"
  shows "texts (out (foldl (\<lambda>s d. iteration get d s) st [cur..<n])) =
           texts (out st)
             @ map (\<lambda>d. progress_text d
                          (days_processed (foldl (\<lambda>s d. iteration get d s) st [cur..<Suc d])))
                 (filter (\<lambda>d. day d = 1) [cur..<n])"
proof (induction n)
  case 0
  then show ?case by simp
next
  case (Suc n)
  show ?case
  proof (cases "cur \<le> n")
    case False
    then show ?thesis by simp
  next
    case True
    let ?s = "foldl (\<lambda>s d. iteration get d s) st [cur..<n]"
    have inv: "map fst (totals ?s) = tracked_fields"
      using foldl_iteration_char[OF assms, of get "[cur..<n]"] by simp
    have step: "foldl (\<lambda>s d. iteration get d s) st [cur..<Suc n] = iteration get n ?s"
      using True by simp
    from iteration_char(5)[OF inv, of get n] obtain e where
      "out (iteration get n ?s) =
         out ?s @ (case e of None \<Rightarrow> [] | Some e' \<Rightarrow> [ErrorText (date_str n) e'])
           @ (if day n = 1
              then [Text (progress_text n (days_processed (iteration get n ?s)))]
              else [])" by blast
    then have "texts (out (iteration get n ?s)) =
         texts (out ?s) @ (if day n = 1
              then [progress_text n (days_processed (iteration get n ?s))]
              else [])"
      by (simp add: texts_append texts_error)
    with Suc.IH True show ?thesis
      unfolding step by simp
  qed
qed

lemma readings_of_Raised: "readings_of (Raised e) = None"
  by (simp add: readings_of_def payload_def)

lemma tracked_imp: "''imp'' \<in> set tracked_fields"
  by (simp add: tracked_fields_def totals_init_def)

section \<open>The division and the format of the report\<close>

lemma bit_length_0: "bit_length 0 = 0"
  by (simp add: bit_length.simps)

lemma bit_length_1: "bit_length (Suc 0) = 1"
  by (simp add: bit_length.simps[of "Suc 0"] bit_length_0)

lemma bit_length_numeral: "bit_length (numeral k) = Suc (bit_length (numeral k div 2))"
  by (subst bit_length.simps) simp

lemmas bit_length_eval = bit_length_0 bit_length_1 bit_length_numeral

lemma round_half_even_bound:
  assumes "0 < b"
  shows "\<bar>real_of_int (round_half_even a b) - real_of_int a / real_of_int b\<bar> \<le> 1 / 2"
proof -
  define q where "q = a div b"
  define r where "r = a mod b"
  have a: "a = q * b + r" by (simp add: q_def r_def)
  have r: "0 \<le> r" "r < b" using assms by (simp_all add: r_def)
  have quot: "real_of_int a / real_of_int b = real_of_int q + real_of_int r / real_of_int b"
    using assms by (simp add: a field_simps)
  have rb: "0 \<le> real_of_int r / real_of_int b" "real_of_int r / real_of_int b < 1"
    using r assms by simp_all
  consider "2 * r < b" | "b < 2 * r" | "2 * r = b" by linarith
  then show ?thesis
  proof cases
    case 1
    then have "round_half_even a b = q"
      by (simp add: round_half_even_def Let_def q_def r_def)
    moreover from 1 assms have "real_of_int r / real_of_int b < 1 / 2"
      by (simp add: field_simps)
    ultimately show ?thesis using quot rb by simp
  next
    case 2
    then have "round_half_even a b = q + 1"
      by (simp add: round_half_even_def Let_def q_def r_def)
    moreover from 2 assms have "1 / 2 < real_of_int r / real_of_int b"
      by (simp add: field_simps)
    ultimately show ?thesis using quot rb by simp
  next
    case 3
    then have "round_half_even a b = q \<or> round_half_even a b = q + 1"
      by (simp add: round_half_even_def Let_def q_def r_def)
    moreover from 3 assms have "real_of_int r / real_of_int b = 1 / 2"
      by (simp add: field_simps)
    ultimately show ?thesis using quot by auto
  qed
qed

lemma bit_length_bounds:
  "0 < n \<Longrightarrow> 2 ^ (bit_length n - 1) \<le> n \<and> n < 2 ^ bit_length n"
proof (induction n rule: bit_length.induct)
  case (1 n)
  show ?case
  proof (cases "n div 2 = 0")
    case True
    with "1.prems" have "n = 1" by linarith
    then show ?thesis
      by (simp add: bit_length.simps[of "Suc 0"] bit_length.simps[of 0])
  next
    case False
    then have pos: "0 < n div 2" by simp
    from "1.prems" have n0: "n \<noteq> 0" by simp
    from "1.IH"[OF n0 pos] have IH: "2 ^ (bit_length (n div 2) - 1) \<le> n div 2"
      "n div 2 < 2 ^ bit_length (n div 2)" by simp_all
    have bl: "bit_length n = Suc (bit_length (n div 2))"
      using n0 by (subst bit_length.simps) simp
    have blpos: "0 < bit_length (n div 2)"
      using pos by (subst bit_length.simps) simp
    then have "(2::nat) ^ bit_length (n div 2) = 2 * 2 ^ (bit_length (n div 2) - 1)"
      by (cases "bit_length (n div 2)") simp_all
    with IH bl show ?thesis by simp linarith
  qed
qed

lemma round_half_even_nonneg: "0 \<le> a \<Longrightarrow> 0 < b \<Longrightarrow> 0 \<le> round_half_even a b"
  by (simp add: round_half_even_def Let_def pos_imp_zdiv_nonneg_iff)

lemma two_powi_pos: "0 < (2::real) powi e"
  by (simp add: power_int_def)

lemma two_powi_nonneg: "0 \<le> e \<Longrightarrow> (2::real) powi e = 2 ^ nat e"
  by (simp add: power_int_def)

lemma two_powi_neg: "e < 0 \<Longrightarrow> (2::real) powi e = 1 / 2 ^ nat (- e)"
  by (simp add: power_int_def field_simps)

lemma ge_pow2_real:
  assumes "0 < b"
  shows "ge_pow2 a b k \<longleftrightarrow> 2 powi k \<le> real_of_int a / real_of_int b"
proof (cases "0 \<le> k")
  case True
  have "b * 2 ^ nat k \<le> a \<longleftrightarrow> real_of_int (b * 2 ^ nat k) \<le> real_of_int a"
    by (simp only: of_int_le_iff)
  also have "\<dots> \<longleftrightarrow> 2 ^ nat k \<le> real_of_int a / real_of_int b"
    using assms by (simp add: field_simps)
  finally show ?thesis using True by (simp add: ge_pow2_def two_powi_nonneg)
next
  case False
  have "b \<le> a * 2 ^ nat (- k) \<longleftrightarrow> real_of_int b \<le> real_of_int (a * 2 ^ nat (- k))"
    by (simp only: of_int_le_iff)
  also have "\<dots> \<longleftrightarrow> 1 / 2 ^ nat (- k) \<le> real_of_int a / real_of_int b"
    using assms by (simp add: field_simps)
  finally show ?thesis using False by (simp add: ge_pow2_def two_powi_neg)
qed

lemma tenths_accuracy:
  "\<bar>real_of_int (tenths (Double neg m e)) - 10 * (real_of_int m * 2 powi e)\<bar> \<le> 1 / 2"
proof (cases "0 \<le> e")
  case True
  then show ?thesis by (simp add: tenths_def two_powi_nonneg)
next
  case False
  have "\<bar>real_of_int (round_half_even (10 * m) (2 ^ nat (- e)))
          - real_of_int (10 * m) / real_of_int (2 ^ nat (- e))\<bar> \<le> 1 / 2"
    by (rule round_half_even_bound) simp
  with False show ?thesis by (simp add: tenths_def two_powi_neg)
qed

lemma true_div_kwh_char:
  assumes "n \<noteq> 0"
  shows "\<exists>m e. 0 \<le> m
           \<and> \<bar>real_of_int m * 2 powi e - \<bar>real_of_int n\<bar> / 3600000\<bar>
               \<le> \<bar>real_of_int n\<bar> / 3600000 / 2 ^ 53
           \<and> true_div n 3600000 =
               (if 0 \<le> e \<and> 2 ^ 1024 \<le> m * 2 ^ nat e then Inl OverflowError
                else Inr (Double (n < 0) m e))"
proof -
  define a where "a = \<bar>n\<bar>"
  define k where "k = bit_length (nat a)"
  define d where "d = int k - int (bit_length (nat 3600000))"
  define fl where "fl = (if ge_pow2 a 3600000 d then d else d - 1)"
  define e where "e = max (fl - 52) (- 1074)"
  define m where "m = (if 0 \<le> e then round_half_even a (3600000 * 2 ^ nat e)
                  else round_half_even (a * 2 ^ nat (- e)) 3600000)"
  define Q where "Q = real_of_int a / 3600000"
  have apos: "0 < a" using assms(1) by (simp add: a_def)
  have td: "true_div n 3600000 =
          (if 0 \<le> e \<and> 2 ^ 1024 \<le> m * 2 ^ nat e then Inl OverflowError
           else Inr (Double (n < 0) m e))"
    unfolding true_div_def Let_def m_def e_def fl_def d_def k_def a_def
    by (simp only: assms(1) if_False)
  have d22: "d = int k - 22"
    by (simp add: d_def bit_length_eval)
  have "0 < nat a" using apos by simp
  from bit_length_bounds[OF this] have kb: "2 ^ (k - 1) \<le> nat a"
    by (simp add: k_def)
  have kpos: "1 \<le> k"
    unfolding k_def using \<open>0 < nat a\<close> by (subst bit_length.simps) simp
  have lower: "2 powi fl \<le> Q"
  proof (cases "ge_pow2 a 3600000 d")
    case True
    then show ?thesis
      using ge_pow2_real[of 3600000 a d] by (simp add: fl_def Q_def)
  next
    case False
    have "d - 1 = int (k - 1) - int 22" using kpos by (simp add: d22)
    then have "(2::real) powi (d - 1) = 2 powi (int (k - 1) - int 22)"
      by (simp only:)
    also have "\<dots> = 2 powi int (k - 1) / 2 powi int 22"
      by (rule power_int_diff) simp
    also have "\<dots> = 2 ^ (k - 1) / 2 ^ 22"
      by (simp only: power_int_of_nat)
    also have "\<dots> \<le> real_of_int a / 2 ^ 22"
    proof -
      from kb have "real (2 ^ (k - 1)) \<le> real (nat a)" by (simp only: of_nat_le_iff)
      then have "(2::real) ^ (k - 1) \<le> real_of_int a" using apos by simp
      then show ?thesis by (simp add: divide_right_mono)
    qed
    also have "\<dots> \<le> Q" using apos by (simp add: Q_def field_simps)
    finally show ?thesis using False by (simp add: fl_def)
  qed
  have "- 22 \<le> fl" using kpos by (simp add: fl_def d22)
  then have e: "e = fl - 52" by (simp add: e_def)
  have "(2::real) powi fl = 2 powi e * 2 ^ 52"
    by (simp add: e power_int_diff)
  with lower have pe: "2 powi e \<le> Q / 2 ^ 52" by (simp add: field_simps)
  have mq: "\<bar>real_of_int m - Q / 2 powi e\<bar> \<le> 1 / 2"
  proof (cases "0 \<le> e")
    case True
    have "\<bar>real_of_int (round_half_even a (3600000 * 2 ^ nat e))
            - real_of_int a / real_of_int (3600000 * 2 ^ nat e)\<bar> \<le> 1 / 2"
      by (rule round_half_even_bound) simp
    with True show ?thesis by (simp add: m_def Q_def two_powi_nonneg)
  next
    case False
    have "\<bar>real_of_int (round_half_even (a * 2 ^ nat (- e)) 3600000)
            - real_of_int (a * 2 ^ nat (- e)) / real_of_int 3600000\<bar> \<le> 1 / 2"
      by (rule round_half_even_bound) simp
    with False show ?thesis by (simp add: m_def Q_def two_powi_neg)
  qed
  have "\<bar>real_of_int m * 2 powi e - Q\<bar> = \<bar>real_of_int m - Q / 2 powi e\<bar> * 2 powi e"
    using two_powi_pos[of e] by (simp add: abs_mult_pos[symmetric] field_simps)
  also have "\<dots> \<le> 1 / 2 * 2 powi e"
    using mq two_powi_pos[of e] by (simp add: mult_right_mono)
  also have "\<dots> \<le> 1 / 2 * (Q / 2 ^ 52)"
    using pe by simp
  also have "\<dots> = Q / 2 ^ 53" by simp
  finally have acc: "\<bar>real_of_int m * 2 powi e - Q\<bar> \<le> Q / 2 ^ 53" .
  have mpos: "0 \<le> m"
    using apos by (simp add: m_def round_half_even_nonneg)
  have "Q = \<bar>real_of_int n\<bar> / 3600000" by (simp add: Q_def a_def)
  with td mpos acc show ?thesis by blast
qed

text \<open>A total below \<open>2 ^ 1000\<close> watt-seconds in absolute value is always converted.\<close>

lemma true_div_kwh_defined:
  assumes "\<bar>n\<bar> < 2 ^ 1000"
  shows "\<exists>x. true_div n 3600000 = Inr x"
proof (cases "n = 0")
  case True
  then show ?thesis by (simp add: true_div_def)
next
  case False
  from true_div_kwh_char[OF False] obtain m e where me: "0 \<le> m"
    "\<bar>real_of_int m * 2 powi e - \<bar>real_of_int n\<bar> / 3600000\<bar>
       \<le> \<bar>real_of_int n\<bar> / 3600000 / 2 ^ 53"
    "true_div n 3600000 =
       (if 0 \<le> e \<and> 2 ^ 1024 \<le> m * 2 ^ nat e then Inl OverflowError
        else Inr (Double (n < 0) m e))" by blast
  define Q where "Q = \<bar>real_of_int n\<bar> / 3600000"
  have "real_of_int \<bar>n\<bar> < real_of_int (2 ^ 1000)"
    using assms by (simp only: of_int_less_iff)
  then have Q: "Q < 2 ^ 1000" "0 \<le> Q" by (simp_all add: Q_def)
  have "Q / 2 ^ 53 \<le> Q" using Q(2) by (simp add: field_simps)
  with me(2) have v: "real_of_int m * 2 powi e \<le> 2 * Q"
    unfolding Q_def[symmetric] by linarith
  have "\<not> (0 \<le> e \<and> 2 ^ 1024 \<le> m * 2 ^ nat e)"
  proof
    assume ov: "0 \<le> e \<and> 2 ^ 1024 \<le> m * 2 ^ nat e"
    then have "real_of_int (2 ^ 1024) \<le> real_of_int (m * 2 ^ nat e)"
      by (simp only: of_int_le_iff)
    then have "(2::real) ^ 1024 \<le> real_of_int m * 2 powi e"
      using ov by (simp add: two_powi_nonneg)
    with v Q(1) show False by simp
  qed
  with me(3) show ?thesis by simp
qed

lemma tenths_nonneg: "0 \<le> m \<Longrightarrow> 0 \<le> tenths (Double neg m e)"
  by (simp add: tenths_def round_half_even_nonneg)

text \<open>The figure printed for \<open>n\<close> watt-seconds.\<close>

lemma kwh_text_one_decimal:
  assumes "kwh_text n = Inr s"
  shows "one_decimal n s"
proof (cases "n = 0")
  case True
  with assms have "s = render_tenths False 0"
    by (simp add: kwh_text_def true_div_def format_1f_def tenths_def)
  with True show ?thesis
    unfolding one_decimal_def by (intro exI[of _ 0]) (simp add: near_kwh_def)
next
  case False
  from true_div_kwh_char[OF False] obtain m e where me: "0 \<le> m"
    "\<bar>real_of_int m * 2 powi e - \<bar>real_of_int n\<bar> / 3600000\<bar>
       \<le> \<bar>real_of_int n\<bar> / 3600000 / 2 ^ 53"
    "true_div n 3600000 =
       (if 0 \<le> e \<and> 2 ^ 1024 \<le> m * 2 ^ nat e then Inl OverflowError
        else Inr (Double (n < 0) m e))" by blast
  from assms obtain x where x: "true_div n 3600000 = Inr x" "s = format_1f x"
    by (auto simp: kwh_text_def split: sum.splits)
  with me(3) have "x = Double (n < 0) m e"
    by (metis Inl_Inr_False sum.inject(2))
  with x(2) have s: "s = render_tenths (n < 0) (tenths (Double (n < 0) m e))"
    by (simp add: format_1f_def)
  from tenths_accuracy[of "n < 0" m e]
  have "\<bar>real_of_int (tenths (Double (n < 0) m e)) / 10 - real_of_int m * 2 powi e\<bar> \<le> 1 / 20"
    by (simp add: field_simps)
  with me(2) have "\<bar>real_of_int (tenths (Double (n < 0) m e)) / 10 - \<bar>real_of_int n\<bar> / 3600000\<bar>
      \<le> 1 / 20 + \<bar>real_of_int n\<bar> / 3600000 / 2 ^ 53"
    by linarith
  with s tenths_nonneg[OF me(1), of "n < 0" e] show ?thesis
    unfolding one_decimal_def near_kwh_def by blast
qed

lemma kwh_text_defined:
  assumes "\<bar>n\<bar> < 2 ^ 1000"
  shows "\<exists>s. kwh_text n = Inr s \<and> one_decimal n s"
proof -
  from true_div_kwh_defined[OF assms] obtain x where "true_div n 3600000 = Inr x" ..
  then have "kwh_text n = Inr (format_1f x)" by (simp add: kwh_text_def)
  with kwh_text_one_decimal show ?thesis by blast
qed

lemma report_lines:
  assumes "map_of (totals st) ''imp'' = Some i" and "map_of (totals st) ''exp'' = Some x"
    and "map_of (totals st) ''gep'' = Some g"
    and "kwh_text i = Inr si" and "kwh_text x = Inr sx" and "kwh_text g = Inr sg"
    and "kwh_text (i + g - x) = Inr sc"
  shows "report st =
           (None, st\<lparr>out := out st @
              [Text (header_text (days_processed st)),
               Text (''Import (from grid): '' @ si @ '' kWh''),
               Text (''Export (to grid):   '' @ sx @ '' kWh''),
               Text (''Generation (solar): '' @ sg @ '' kWh''),
               Text (''Consumption (est.): '' @ sc @ '' kWh'')]\<rparr>)"
  using assms by (simp add: report_def Let_def lookup_total_def print_kwh_def)

section \<open>The definitions at concrete inputs\<close>

lemma date_consts: "start_date = 739252" "end_date_2025 = 739616"
  by (simp_all add: start_date_def end_date_2025_def date_of_def days_before_year_def
      days_before_month_def is_leap_def)

lemma ymd_examples:
  "ymd 739252 = (2025, 1, 1)" "ymd 739616 = (2025, 12, 31)" "ymd 738945 = (2024, 2, 29)"
  "ymd 3652059 = (9999, 12, 31)" "ymd 1 = (1, 1, 1)" "ymd 739283 = (2025, 2, 1)"
  by (simp_all add: ymd_def Let_def)

lemma key_val: "key = ''U21962448''"
  by (simp add: key_def ZAPPI_def)

lemma day_values: "day 739252 = 1" "day 739253 = 2" "day 739251 = 31" "day 739283 = 1"
  by (simp_all add: day_def ymd_def Let_def)

lemma date_str_jan1: "date_str 739252 = ''2025-01-01''"
  by (simp add: date_str_def year_def month_def day_def ymd_def Let_def zero_pad_def
      show_nat.simps)

lemma date_str_jan2: "date_str 739253 = ''2025-01-02''"
  by (simp add: date_str_def year_def month_def day_def ymd_def Let_def zero_pad_def
      show_nat.simps)

lemma progress_jan: "progress_text 739252 n = ''January 2025... ('' @ show_nat n @ '' days)''"
  by (simp add: progress_text_def month_year_str_def year_def month_def ymd_def Let_def
      zero_pad_def show_nat.simps month_name_def)

lemma add_field_smoke:
  "add_field ''imp'' (JObj [(''imp'', JInt 5)]) totals_init =
     (None, [(''imp'', 5), (''exp'', 0), (''gep'', 0), (''gen'', 0), (''h1d'', 0), (''h1b'', 0)])"
  by (simp add: add_field_def totals_init_def)

lemma counted_single: "counted (single_reading d u)"
  by (simp add: single_reading_def ok_response_def counted_def readings_of_def payload_def
      key_val reading_ok_def tracked_fields_def totals_init_def)

lemma counted_timeout: "\<not> counted (Raised e)"
  by (simp add: counted_def readings_of_def payload_def)

lemma day_sum_single: "day_sum ''imp'' (single_reading d u) = 3600000"
  by (simp add: single_reading_def ok_response_def day_sum_def readings_of_def payload_def
      key_val)

lemma not_partway_single: "\<not> fails_partway (single_reading d u)"
  by (simp add: single_reading_def ok_response_def fails_partway_def readings_of_def payload_def
      key_val reading_ok_def tracked_fields_def totals_init_def)

lemma after_one_day_val:
  "after_one_day =
     \<lparr>totals = [(''imp'', 3600000), (''exp'', 0), (''gep'', 0), (''gen'', 0), (''h1d'', 0),
                (''h1b'', 0)],
      days_processed = 1, out = []\<rparr>"
  by (simp add: after_one_day_def iteration_def Let_def day_values single_reading_def
      ok_response_def try_body_def add_day_def add_field_def key_val state_init_def
      totals_init_def)

lemma kwh_text_3600000: "kwh_text 3600000 = Inr ''1.0''"
  by (simp add: kwh_text_def true_div_def Let_def bit_length_eval ge_pow2_def format_1f_def
      render_tenths_def tenths_def round_half_even_def show_nat.simps)

lemma kwh_text_0: "kwh_text 0 = Inr ''0.0''"
  by (simp add: kwh_text_def true_div_def format_1f_def render_tenths_def tenths_def
      show_nat.simps)

lemma kwh_text_examples:
  "kwh_text (- 1) = Inr ''-0.0''" "kwh_text 180000 = Inr ''0.1''"
  "kwh_text 540000 = Inr ''0.1''" "kwh_text 900000 = Inr ''0.2''"
  "kwh_text 123456789012 = Inr ''34293.6''"
  by (simp_all add: kwh_text_def true_div_def Let_def bit_length_eval ge_pow2_def format_1f_def
      render_tenths_def tenths_def round_half_even_def show_nat.simps)

lemma single_day_loop:
  "run_loop single_reading start_date start_date state_init =
     (None, \<lparr>totals = [(''imp'', 3600000), (''exp'', 0), (''gep'', 0), (''gen'', 0),
                         (''h1d'', 0), (''h1b'', 0)],
             days_processed = 1, out = [Text ''January 2025... (1 days)'']\<rparr>)"
  by (simp add: date_consts run_loop.simps date_max_def iteration_def Let_def day_values
      single_reading_def ok_response_def try_body_def add_day_def add_field_def key_val
      state_init_def totals_init_def progress_jan show_nat.simps)

lemma single_day_run:
  "run single_reading start_date start_date =
     (None, \<lparr>totals = [(''imp'', 3600000), (''exp'', 0), (''gep'', 0), (''gen'', 0),
                         (''h1d'', 0), (''h1b'', 0)],
             days_processed = 1,
             out = [Text ''January 2025... (1 days)'',
                    Text (CHR 0x0A # ''=== 2025 Totals (1 days) ===''),
                    Text ''Import (from grid): 1.0 kWh'',
                    Text ''Export (to grid):   0.0 kWh'',
                    Text ''Generation (solar): 0.0 kWh'',
                    Text ''Consumption (est.): 1.0 kWh'']\<rparr>)"
  by (simp add: run_def single_day_loop report_def Let_def lookup_total_def print_kwh_def
      kwh_text_3600000 kwh_text_0 header_text_def show_nat.simps)

lemma report_init:
  "report state_init =
     (None, state_init\<lparr>out :=
        [Text (CHR 0x0A # ''=== 2025 Totals (0 days) ===''),
         Text ''Import (from grid): 0.0 kWh'',
         Text ''Export (to grid):   0.0 kWh'',
         Text ''Generation (solar): 0.0 kWh'',
         Text ''Consumption (est.): 0.0 kWh'']\<rparr>)"
  by (simp add: report_def Let_def lookup_total_def print_kwh_def kwh_text_0 header_text_def
      show_nat.simps state_init_def totals_init_def)

section \<open>The claims\<close>

subsection \<open>C1: the processed-day count\<close>

text \<open>
  C1 (as amended). For every sequence of daily responses, the final processed-day count
  equals the number of dates in the range whose response was ok, non-empty, parsed and
  processed without an exception, whether or not the per-device key was found in it: the
  counter is incremented after the \<^verbatim>\<open>if key in data\<close> statement, not inside it.
\<close>

theorem processed_days_count:
  assumes "end_date < date_max"
  shows "days_processed (snd (run_loop get start end_date state_init)) =
           length (filter (\<lambda>d. counted (fetched get d)) [start..<Suc end_date])"
  using foldl_iteration_char[OF init_keys, of get "[start..<Suc end_date]"]
  by (simp add: run_loop_foldl[OF assms] state_init_def)

text \<open>One day times out and the next one is processed: the count is 1.\<close>

theorem processed_days_count_witness:
  "start_date + 1 < date_max
   \<and> days_processed (snd (run_loop timeout_then_data start_date (start_date + 1) state_init)) = 1"
proof -
  have h: "start_date + 1 < date_max"
    by (simp add: date_consts date_max_def)
  have "length (filter (\<lambda>d. counted (fetched timeout_then_data d))
          [start_date..<Suc (start_date + 1)]) = 1"
    by (simp add: date_consts fetched_def timeout_then_data_def counted_single counted_timeout)
  with h processed_days_count[OF h, of timeout_then_data start_date] show ?thesis
    by simp
qed

text \<open>
  The claim as stated fails: a response that is ok and non-empty but lacks the per-device
  key increments the counter, so the count is 1 while no date had the key.
\<close>

theorem processed_days_counterexample:
  "days_processed (snd (run_loop day_without_key start_date start_date state_init)) = 1
   \<and> length (filter (\<lambda>d. key_found (fetched day_without_key d))
        [start_date..<Suc start_date]) = 0"
  by (simp add: date_consts run_loop.simps date_max_def iteration_def Let_def
      day_without_key_def ok_response_def try_body_def add_day_def key_found_def payload_def
      fetched_def state_init_def)

subsection \<open>C2: the totals are the sum of the readings\<close>

text \<open>
  C2 (as amended). For every sequence of daily responses in which no day raises an
  exception partway through its readings, after the run the accumulator's value for each
  tracked field equals the sum, over all parsed days and all reading records within them,
  of that field's value in the record, where a field missing from a record contributes
  zero.
\<close>

theorem totals_sum:
  assumes "end_date < date_max" and "f \<in> set tracked_fields"
    and "\<forall>d\<in>set [start..<Suc end_date]. \<not> fails_partway (fetched get d)"
  shows "map_of (totals (snd (run_loop get start end_date state_init))) f =
           Some (\<Sum>d\<leftarrow>[start..<Suc end_date]. day_sum f (fetched get d))"
proof -
  have "(\<Sum>d\<leftarrow>[start..<Suc end_date]. day_adds f (fetched get d)) =
        (\<Sum>d\<leftarrow>[start..<Suc end_date]. day_sum f (fetched get d))"
    using assms(2,3) by (intro arg_cong[where f=sum_list] map_cong refl day_adds_sum) auto
  with foldl_iteration_char[OF init_keys, of get "[start..<Suc end_date]" f]
    init_lookup[OF assms(2)]
  show ?thesis
    by (simp add: run_loop_foldl[OF assms(1)])
qed

theorem totals_sum_witness:
  "start_date + 1 < date_max \<and> ''imp'' \<in> set tracked_fields
   \<and> list_all (\<lambda>d. \<not> fails_partway (fetched single_reading d))
         [start_date..<Suc (start_date + 1)]
   \<and> map_of (totals (snd (run_loop single_reading start_date (start_date + 1) state_init)))
        ''imp'' = Some 7200000"
proof -
  have h1: "start_date + 1 < date_max"
    by (simp add: date_consts date_max_def)
  have h2: "''imp'' \<in> set tracked_fields"
    by (simp add: tracked_fields_def totals_init_def)
  have h3: "\<forall>d\<in>set [start_date..<Suc (start_date + 1)].
              \<not> fails_partway (fetched single_reading d)"
    by (simp add: fetched_def not_partway_single)
  have "(\<Sum>d\<leftarrow>[start_date..<Suc (start_date + 1)]. day_sum ''imp'' (fetched single_reading d))
          = 7200000"
    by (simp add: date_consts fetched_def day_sum_single)
  with totals_sum[OF h1 h2 h3] h1 h2 h3 show ?thesis
    by (simp add: list_all_iff)
qed

text \<open>
  The claim as stated fails for a day that raises partway: with the readings
  \<^verbatim>\<open>[{"imp": 5, "exp": "x"}, {"imp": 7}]\<close> the total of \<^verbatim>\<open>imp\<close> is 5, neither the sum 12 over
  the day's records nor 0 for a day that is not counted.
\<close>

theorem totals_sum_counterexample:
  "map_of (totals (snd (run_loop partway_day start_date start_date state_init))) ''imp'' = Some 5
   \<and> days_processed (snd (run_loop partway_day start_date start_date state_init)) = 0
   \<and> day_sum ''imp'' (fetched partway_day start_date) = 12"
  by (simp add: date_consts run_loop.simps date_max_def iteration_def Let_def
      partway_day_def ok_response_def try_body_def add_day_def add_field_def key_val
      fetched_def state_init_def totals_init_def day_sum_def readings_of_def payload_def)

subsection \<open>C3: the report in kilowatt-hours\<close>

text \<open>
  C3. The report prints the header and four figures: the imported, exported and generated
  totals and the estimated consumption, which is imported + generated - exported computed
  in watt-seconds; each figure is the number of watt-seconds divided by 3,600,000 and
  written with one decimal place (totals below \<open>2 ^ 998\<close> watt-seconds in absolute value
  are always converted). In particular, for the single day 2025-01-01 with the sole reading
  \<^verbatim>\<open>{"imp": 3600000, "exp": 0, "gep": 0}\<close> under the per-device key, the script prints
  Import 1.0 kWh, Export 0.0 kWh, Generation 0.0 kWh and Consumption 1.0 kWh.
\<close>

theorem report_in_kwh:
  assumes "map_of (totals st) ''imp'' = Some i" and "map_of (totals st) ''exp'' = Some x"
    and "map_of (totals st) ''gep'' = Some g"
    and "\<bar>i\<bar> < 2 ^ 998" and "\<bar>x\<bar> < 2 ^ 998" and "\<bar>g\<bar> < 2 ^ 998"
  shows "(\<exists>si sx sg sc.
            one_decimal i si \<and> one_decimal x sx \<and> one_decimal g sg
          \<and> one_decimal (i + g - x) sc
          \<and> report st =
              (None, st\<lparr>out := out st @
                 [Text (header_text (days_processed st)),
                  Text (''Import (from grid): '' @ si @ '' kWh''),
                  Text (''Export (to grid):   '' @ sx @ '' kWh''),
                  Text (''Generation (solar): '' @ sg @ '' kWh''),
                  Text (''Consumption (est.): '' @ sc @ '' kWh'')]\<rparr>))
       \<and> run single_reading start_date start_date =
           (None, \<lparr>totals = [(''imp'', 3600000), (''exp'', 0), (''gep'', 0), (''gen'', 0),
                               (''h1d'', 0), (''h1b'', 0)],
                   days_processed = 1,
                   out = [Text ''January 2025... (1 days)'',
                          Text (CHR 0x0A # ''=== 2025 Totals (1 days) ===''),
                          Text ''Import (from grid): 1.0 kWh'',
                          Text ''Export (to grid):   0.0 kWh'',
                          Text ''Generation (solar): 0.0 kWh'',
                          Text ''Consumption (est.): 1.0 kWh'']\<rparr>)"
proof -
  have small: "(2::int) ^ 998 * 4 = 2 ^ 1000" by simp
  have bi: "\<bar>i\<bar> < 2 ^ 1000" and bx: "\<bar>x\<bar> < 2 ^ 1000" and bg: "\<bar>g\<bar> < 2 ^ 1000"
    and bc: "\<bar>i + g - x\<bar> < 2 ^ 1000"
    using assms(4-6) small by linarith+
  from kwh_text_defined[OF bi] obtain si where si: "kwh_text i = Inr si" "one_decimal i si"
    by blast
  from kwh_text_defined[OF bx] obtain sx where sx: "kwh_text x = Inr sx" "one_decimal x sx"
    by blast
  from kwh_text_defined[OF bg] obtain sg where sg: "kwh_text g = Inr sg" "one_decimal g sg"
    by blast
  from kwh_text_defined[OF bc] obtain sc where
    sc: "kwh_text (i + g - x) = Inr sc" "one_decimal (i + g - x) sc"
    by blast
  from report_lines[OF assms(1-3) si(1) sx(1) sg(1) sc(1)] si(2) sx(2) sg(2) sc(2)
    single_day_run
  show ?thesis by blast
qed

text \<open>The state after the loop of the single day, and its report.\<close>

theorem report_in_kwh_witness:
  "map_of (totals (snd (run_loop single_reading start_date start_date state_init))) ''imp''
     = Some 3600000
   \<and> map_of (totals (snd (run_loop single_reading start_date start_date state_init))) ''exp''
     = Some 0
   \<and> map_of (totals (snd (run_loop single_reading start_date start_date state_init))) ''gep''
     = Some 0
   \<and> \<bar>3600000 :: int\<bar> < 2 ^ 998 \<and> \<bar>0 :: int\<bar> < 2 ^ 998
   \<and> fst (report (snd (run_loop single_reading start_date start_date state_init))) = None
   \<and> length (out (snd (report (snd (run_loop single_reading start_date start_date
         state_init))))) = 6"
proof -
  let ?st = "snd (run_loop single_reading start_date start_date state_init)"
  have h1: "map_of (totals ?st) ''imp'' = Some 3600000"
    and h2: "map_of (totals ?st) ''exp'' = Some 0"
    and h3: "map_of (totals ?st) ''gep'' = Some 0"
    by (simp_all add: single_day_loop)
  have h4: "\<bar>3600000 :: int\<bar> < 2 ^ 998" and h5: "\<bar>0 :: int\<bar> < 2 ^ 998"
    by simp_all
  from report_in_kwh[OF h1 h2 h3 h4 h5 h5] obtain si sx sg sc where
    "report ?st =
       (None, ?st\<lparr>out := out ?st @
          [Text (header_text (days_processed ?st)),
           Text (''Import (from grid): '' @ si @ '' kWh''),
           Text (''Export (to grid):   '' @ sx @ '' kWh''),
           Text (''Generation (solar): '' @ sg @ '' kWh''),
           Text (''Consumption (est.): '' @ sc @ '' kWh'')]\<rparr>)"
    by blast
  then have "fst (report ?st) = None" "length (out (snd (report ?st))) = 6"
    by (simp_all add: single_day_loop)
  with h1 h2 h3 h4 h5 show ?thesis by simp
qed

subsection \<open>C4: a transport error\<close>

text \<open>
  C4. When the request of a date raises, the iteration prints the error line with that
  date and the exception (followed by the progress line on the first of a month), leaves
  the processed-day count and every field of the accumulator as they were, and the loop
  goes on with all the remaining dates of the range.
\<close>

theorem transport_error_skipped:
  assumes "fetched get d = Raised e" and "d \<le> end_date" and "end_date < date_max"
  shows "out (iteration get d st) =
           out st @ ErrorText (date_str d) e
             # (if day d = 1 then [Text (progress_text d (days_processed st))] else [])
       \<and> days_processed (iteration get d st) = days_processed st
       \<and> totals (iteration get d st) = totals st
       \<and> run_loop get d end_date st =
           (None, foldl (\<lambda>s x. iteration get x s) (iteration get d st) [Suc d..<Suc end_date])"
proof -
  from assms(2) have "[d..<Suc end_date] = d # [Suc d..<Suc end_date]"
    by (simp add: upt_conv_Cons)
  then have "run_loop get d end_date st =
           (None, foldl (\<lambda>s x. iteration get x s) (iteration get d st) [Suc d..<Suc end_date])"
    by (simp add: run_loop_foldl[OF assms(3)])
  moreover from assms(1) have "get d (url (date_str d)) = Raised e"
    by (simp add: fetched_def)
  ultimately show ?thesis
    by (simp add: iteration_def Let_def try_body_def)
qed

theorem transport_error_skipped_witness:
  "fetched timeout_then_data start_date = Raised (RequestError ''timed out'')
   \<and> start_date \<le> start_date + 1 \<and> start_date + 1 < date_max
   \<and> out (iteration timeout_then_data start_date state_init) =
       [ErrorText ''2025-01-01'' (RequestError ''timed out''), Text ''January 2025... (0 days)'']
   \<and> totals (iteration timeout_then_data start_date state_init) = totals_init
   \<and> days_processed
        (snd (run_loop timeout_then_data start_date (start_date + 1) state_init)) = 1"
proof -
  have h1: "fetched timeout_then_data start_date = Raised (RequestError ''timed out'')"
    by (simp add: fetched_def timeout_then_data_def date_consts)
  have h2: "start_date \<le> start_date + 1" by simp
  have h3: "start_date + 1 < date_max"
    by (simp add: date_consts date_max_def)
  note t = transport_error_skipped[OF h1 h2 h3, of state_init]
  have inv: "map fst (totals (iteration timeout_then_data start_date state_init)) = tracked_fields"
    using t init_keys by simp
  have "days_processed
        (snd (run_loop timeout_then_data start_date (start_date + 1) state_init)) = 1"
    using t foldl_iteration_char[OF inv, of timeout_then_data "[Suc start_date..<Suc (start_date + 1)]"]
    by (simp add: date_consts fetched_def timeout_then_data_def counted_single state_init_def)
  with t h1 h2 h3 show ?thesis
    by (simp add: date_consts day_values progress_jan date_str_jan1 show_nat.simps
        state_init_def)
qed

subsection \<open>C5: an empty range\<close>

text \<open>
  C5. If the start date is after the end date, the loop performs no iteration: it
  completes with the initial state, in which every field of the accumulator is zero, the
  processed-day count is zero and nothing was printed; the script then goes on to the
  report of that state, which completes and leaves the accumulator and the count as they
  are.
\<close>

theorem empty_range:
  assumes "end_date < start"
  shows "run_loop get start end_date state_init = (None, state_init)
       \<and> days_processed state_init = 0
       \<and> out state_init = []
       \<and> (\<forall>f\<in>set tracked_fields. map_of (totals state_init) f = Some 0)
       \<and> run get start end_date = report state_init
       \<and> fst (report state_init) = None
       \<and> totals (snd (report state_init)) = totals state_init
       \<and> days_processed (snd (report state_init)) = 0"
  using assms
  by (simp add: run_def run_loop.simps init_lookup report_init) (simp add: state_init_def)

theorem empty_range_witness:
  "end_date_2025 < end_date_2025 + 1
   \<and> run_loop single_reading (end_date_2025 + 1) end_date_2025 state_init = (None, state_init)
   \<and> map_of (totals state_init) ''gep'' = Some 0"
  using empty_range[of end_date_2025 "end_date_2025 + 1" single_reading]
  by (simp add: tracked_fields_def totals_init_def)

subsection \<open>C6: a failure does not undo earlier totals\<close>

text \<open>
  C6 (as amended). A failure on one day never subtracts from or resets what earlier days
  accumulated: after the iteration of any date, each field is its value before the
  iteration plus what that day's own readings added. When the failure happens before the
  readings are reached (a transport error, an unparsable body, a key lookup or an
  iteration that raises) the accumulator is exactly as before; when it happens partway
  through the readings, the additions made before the exception stay on top of the
  earlier totals.
\<close>

theorem failure_keeps_earlier_totals:
  assumes "map fst (totals st) = tracked_fields" and "map_of (totals st) f = Some c"
  shows "map_of (totals (iteration get d st)) f = Some (c + day_adds f (fetched get d))
       \<and> (readings_of (fetched get d) = None \<longrightarrow> totals (iteration get d st) = totals st)"
  using iteration_char(3,4)[OF assms(1), of get d] assms(2) by simp

theorem failure_keeps_earlier_totals_witness:
  "map fst (totals after_one_day) = tracked_fields
   \<and> map_of (totals after_one_day) ''imp'' = Some 3600000
   \<and> map_of (totals (iteration timeout_then_data 739252 after_one_day)) ''imp'' = Some 3600000
   \<and> totals (iteration timeout_then_data 739252 after_one_day) = totals after_one_day"
proof -
  have h1: "map fst (totals after_one_day) = tracked_fields"
    by (simp add: after_one_day_val tracked_fields_def totals_init_def)
  have h2: "map_of (totals after_one_day) ''imp'' = Some 3600000"
    by (simp add: after_one_day_val)
  have x: "fetched timeout_then_data 739252 = Raised (RequestError ''timed out'')"
    by (simp add: fetched_def timeout_then_data_def)
  from failure_keeps_earlier_totals[OF h1 h2, of timeout_then_data 739252] h1 h2 show ?thesis
    by (simp add: x readings_of_Raised day_adds_def)
qed

text \<open>
  The claim as stated fails: a date that ends in the exception handler can change the
  accumulator. After a day that brought \<^verbatim>\<open>imp\<close> to 3600000, the readings
  \<^verbatim>\<open>[{"imp": 5, "exp": "x"}, {"imp": 7}]\<close> are reported as an error and leave 3600005.
\<close>

theorem failure_counterexample:
  "map_of (totals after_one_day) ''imp'' = Some 3600000
   \<and> map_of (totals (iteration partway_day 739252 after_one_day)) ''imp'' = Some 3600005
   \<and> days_processed (iteration partway_day 739252 after_one_day) = days_processed after_one_day
   \<and> out (iteration partway_day 739252 after_one_day) =
       [ErrorText ''2025-01-01'' TypeError, Text ''January 2025... (1 days)'']"
  by (simp add: after_one_day_val iteration_def Let_def day_values partway_day_def
      ok_response_def try_body_def add_day_def add_field_def key_val date_str_jan1
      progress_jan show_nat.simps)

subsection \<open>C7: the probe prints the answer of the assigned server\<close>

text \<open>
  C7. When both variables are set and the answer of the director carries the
  server-assignment header, the probe requests the status URL of the host named in the
  header as its second request, and what it then prints is the parsed body of that second
  answer (nothing, and the script ends in the exception, if that body does not parse);
  the body of the director's answer is not printed.
\<close>

theorem probe_retargets:
  assumes "\<not> py_not SERIAL" and "\<not> py_not API_KEY"
    and "get 0 director_url = Returned r1"
    and "resp_headers r1 ''x_myenergi-asn'' = Some server"
    and "get 1 (status_url server) = Returned r2"
  shows "requested (probe SERIAL API_KEY get) = [director_url, status_url server]
       \<and> shown (probe SERIAL API_KEY get) =
           (case resp_json r2 of Inl e \<Rightarrow> [] | Inr v \<Rightarrow> [Value v])
       \<and> ended (probe SERIAL API_KEY get) =
           (case resp_json r2 of Inl e \<Rightarrow> Uncaught e | Inr v \<Rightarrow> Completed)"
  using assms by (simp add: probe_def print_json_def split: sum.splits)

theorem probe_retargets_witness:
  "\<not> py_not (Some ''21479935'') \<and> \<not> py_not (Some ''secret'')
   \<and> two_hosts 0 director_url = Returned director_reply
   \<and> resp_headers director_reply ''x_myenergi-asn'' = Some ''s18.myenergi.net''
   \<and> two_hosts 1 (status_url ''s18.myenergi.net'') = Returned server_reply
   \<and> probe (Some ''21479935'') (Some ''secret'') two_hosts =
        \<lparr>requested = [director_url, ''https://s18.myenergi.net/cgi-jstatus-*''],
         shown = [Value (JStr ''s18'')], ended = Completed\<rparr>"
proof -
  have h1: "\<not> py_not (Some ''21479935'')" and h2: "\<not> py_not (Some ''secret'')"
    by (simp_all add: py_not_def)
  have h3: "two_hosts 0 director_url = Returned director_reply"
    by (simp add: two_hosts_def)
  have h4: "resp_headers director_reply ''x_myenergi-asn'' = Some ''s18.myenergi.net''"
    by (simp add: director_reply_def)
  have h5: "two_hosts 1 (status_url ''s18.myenergi.net'') = Returned server_reply"
    by (simp add: two_hosts_def status_url_def director_url_def)
  from probe_retargets[OF h1 h2 h3 h4 h5] h1 h2 h3 h4 h5 show ?thesis
    by (cases "probe (Some ''21479935'') (Some ''secret'') two_hosts")
      (simp add: server_reply_def status_url_def)
qed

subsection \<open>C8: missing configuration\<close>

text \<open>
  C8 (as amended). If either of the two variables is absent or set to the empty string,
  the probe prints the instruction about setting them and ends with exit status 1 without
  having issued any request; when both are set to non-empty strings it does not exit
  early: it issues the request to the director, and neither prints the instruction nor
  ends with status 1.
\<close>

theorem probe_configuration:
  "(SERIAL = None \<or> SERIAL = Some [] \<or> API_KEY = None \<or> API_KEY = Some [] \<longrightarrow>
      probe SERIAL API_KEY get =
        \<lparr>requested = [], shown = [Text instruction], ended = Exit 1\<rparr>)
   \<and> ((\<exists>s k. SERIAL = Some s \<and> s \<noteq> [] \<and> API_KEY = Some k \<and> k \<noteq> []) \<longrightarrow>
        requested (probe SERIAL API_KEY get) \<noteq> []
      \<and> hd (requested (probe SERIAL API_KEY get)) = director_url
      \<and> Text instruction \<notin> set (shown (probe SERIAL API_KEY get))
      \<and> ended (probe SERIAL API_KEY get) \<noteq> Exit 1)"
  by (cases SERIAL; cases API_KEY)
    (auto simp: probe_def py_not_def print_json_def split: fetch.splits option.splits sum.splits)

text \<open>One variable is not set; then both are set and the director answers.\<close>

theorem probe_configuration_witness:
  "probe None (Some ''secret'') two_hosts =
     \<lparr>requested = [], shown = [Text instruction], ended = Exit 1\<rparr>
   \<and> requested (probe (Some ''21479935'') (Some ''secret'') two_hosts) \<noteq> []
   \<and> ended (probe (Some ''21479935'') (Some ''secret'') two_hosts) \<noteq> Exit 1"
  using probe_configuration[of None "Some ''secret''" two_hosts]
    probe_configuration[of "Some ''21479935''" "Some ''secret''" two_hosts]
  by simp

text \<open>
  The claim as stated fails: with \<^verbatim>\<open>MYENERGI_SERIAL\<close> set to the empty string, both
  variables are present, yet the probe exits early with status 1.
\<close>

theorem probe_configuration_counterexample:
  "probe (Some []) (Some ''secret'') two_hosts =
     \<lparr>requested = [], shown = [Text instruction], ended = Exit 1\<rparr>"
  by (simp add: probe_def py_not_def)

subsection \<open>C9: the progress lines\<close>

text \<open>
  C9. The rendered lines printed by the loop are exactly one progress line for each date of
  the range whose day of the month is 1, in order, and none for any other date; the line
  names the month and the year of the date and carries the value the processed-day
  counter has once that date's own iteration is done (the counter of the run that stops
  at that date).
\<close>

theorem progress_lines:
  assumes "end_date < date_max"
  shows "texts (out (snd (run_loop get start end_date state_init))) =
           map (\<lambda>d. progress_text d (days_processed (snd (run_loop get start d state_init))))
             (filter (\<lambda>d. day d = 1) [start..<Suc end_date])"
proof -
  have "map (\<lambda>d. progress_text d (days_processed (snd (run_loop get start d state_init))))
             (filter (\<lambda>d. day d = 1) [start..<Suc end_date])
      = map (\<lambda>d. progress_text d
                (days_processed (foldl (\<lambda>s d. iteration get d s) state_init [start..<Suc d])))
             (filter (\<lambda>d. day d = 1) [start..<Suc end_date])"
  proof (rule map_cong[OF refl])
    fix d assume "d \<in> set (filter (\<lambda>d. day d = 1) [start..<Suc end_date])"
    then have "d \<le> end_date" by auto
    with assms have "d < date_max" by simp
    then show "progress_text d (days_processed (snd (run_loop get start d state_init))) =
        progress_text d
          (days_processed (foldl (\<lambda>s d. iteration get d s) state_init [start..<Suc d]))"
      by (simp add: run_loop_foldl)
  qed
  with foldl_progress[OF init_keys, of get start "Suc end_date"] show ?thesis
    by (simp add: run_loop_foldl[OF assms] state_init_def)
qed

text \<open>From 2024-12-31 to 2025-01-02, every day with data: one line, for 1 January.\<close>

theorem progress_lines_witness:
  "start_date + 1 < date_max
   \<and> texts (out (snd (run_loop single_reading (start_date - 1) (start_date + 1) state_init))) =
       [''January 2025... (2 days)'']"
proof -
  have h: "start_date + 1 < date_max"
    by (simp add: date_consts date_max_def)
  have c: "days_processed (snd (run_loop single_reading 739251 739252 state_init)) = 2"
    using foldl_iteration_char[OF init_keys, of single_reading "[739251..<Suc 739252]"]
    by (simp add: run_loop_foldl date_max_def fetched_def counted_single state_init_def)
  from progress_lines[OF h, of single_reading "start_date - 1"] h c show ?thesis
    by (simp add: date_consts day_values progress_jan show_nat.simps)
qed

subsection \<open>C10: accumulation within a day is not atomic\<close>

text \<open>
  C10. When a day's readings are reached and one of them raises (all readings before it
  being fine), the day is reported as an error and the processed-day count does not
  change, yet the accumulator keeps what the day added before the exception: for each
  field, the values of the readings before the failing one, and the value of the failing
  reading if the field comes before the field that raised.
\<close>

theorem partial_day_kept:
  assumes "map fst (totals st) = tracked_fields"
    and "readings_of (fetched get d) = Some (good @ bad # rest)"
    and "list_all reading_ok good" and "\<not> reading_ok bad"
    and "f \<in> set tracked_fields" and "map_of (totals st) f = Some c"
  shows "(\<exists>e. out (iteration get d st) =
               out st @ ErrorText (date_str d) e
                 # (if day d = 1 then [Text (progress_text d (days_processed st))] else []))
       \<and> days_processed (iteration get d st) = days_processed st
       \<and> map_of (totals (iteration get d st)) f =
           Some (c + (\<Sum>r\<leftarrow>good. field_value f r) + reading_adds f bad)"
proof -
  from assms(2,3,4) have fp: "fails_partway (fetched get d)"
    by (simp add: fails_partway_def)
  then have nc: "\<not> counted (fetched get d)"
    by (auto simp: fails_partway_def counted_def split: option.splits)
  have "day_adds f (fetched get d) = (\<Sum>r\<leftarrow>good. field_value f r) + reading_adds f bad"
    using assms(2) readings_add_split[OF assms(3,4,5)] by (simp add: day_adds_def)
  with try_body_error[OF assms(1) fp] iteration_char(1)[OF assms(1), of get d]
    iteration_char(3)[OF assms(1), of get d f] nc assms(6)
  show ?thesis by simp
qed

theorem partial_day_kept_witness:
  "map fst (totals state_init) = tracked_fields
   \<and> readings_of (fetched late_failure 739253) =
       Some ([JObj [(''imp'', JInt 5)]] @ JObj [(''imp'', JInt 7), (''exp'', JStr ''x'')]
              # [JObj [(''imp'', JInt 9)]])
   \<and> list_all reading_ok [JObj [(''imp'', JInt 5)]]
   \<and> \<not> reading_ok (JObj [(''imp'', JInt 7), (''exp'', JStr ''x'')])
   \<and> ''imp'' \<in> set tracked_fields
   \<and> map_of (totals state_init) ''imp'' = Some 0
   \<and> out (iteration late_failure 739253 state_init) = [ErrorText ''2025-01-02'' TypeError]
   \<and> days_processed (iteration late_failure 739253 state_init) = 0
   \<and> map_of (totals (iteration late_failure 739253 state_init)) ''imp'' = Some 12"
proof -
  have h2: "readings_of (fetched late_failure 739253) =
       Some ([JObj [(''imp'', JInt 5)]] @ JObj [(''imp'', JInt 7), (''exp'', JStr ''x'')]
              # [JObj [(''imp'', JInt 9)]])"
    by (simp add: fetched_def late_failure_def ok_response_def readings_of_def payload_def
        key_val)
  have h3: "list_all reading_ok [JObj [(''imp'', JInt 5)]]"
    by (simp add: reading_ok_def tracked_fields_def totals_init_def)
  have h4: "\<not> reading_ok (JObj [(''imp'', JInt 7), (''exp'', JStr ''x'')])"
    by (simp add: reading_ok_def tracked_fields_def totals_init_def)
  have h6: "map_of (totals state_init) ''imp'' = Some 0"
    by (rule init_lookup[OF tracked_imp])
  have v: "reading_adds ''imp'' (JObj [(''imp'', JInt 7), (''exp'', JStr ''x'')]) = 7"
    by (simp add: reading_adds_def tracked_fields_def totals_init_def)
  have o: "out (iteration late_failure 739253 state_init) = [ErrorText ''2025-01-02'' TypeError]"
    by (simp add: iteration_def Let_def day_values late_failure_def ok_response_def
        try_body_def add_day_def add_field_def key_val date_str_jan2 state_init_def
        totals_init_def)
  from partial_day_kept[OF init_keys h2 h3 h4 tracked_imp h6] init_keys h2 h3 h4 tracked_imp h6 v o
  show ?thesis
    by (simp add: state_init_def)
qed

end
